theory Spec2Isabelle
  imports Main "HOL-Library.Word"
begin

unbundle bit_operations_syntax

section \<open>Go primitives used by the three packages\<close>

text \<open>
  Go strings and byte slices are byte sequences: \<open>string\<close> (a \<open>char list\<close>).
  A run-time panic of the Go program is a value of \<open>go_panic\<close>; a function that can
  panic returns \<open>go_panic + 'a\<close>.
\<close>

datatype go_panic = SliceBoundsOutOfRange | NilDereference | PanicErr string

text \<open>\<open>strconv.Itoa\<close>: the decimal digits of an integer, with a leading minus sign.\<close>

definition digit_char :: "nat \<Rightarrow> char" where
  "digit_char d = char_of (48 + d)"

fun nat_digits :: "nat \<Rightarrow> string" where
  "nat_digits n = (if n < 10 then [digit_char n] else nat_digits (n div 10) @ [digit_char (n mod 10)])"

declare nat_digits.simps [simp del]

definition Itoa :: "int \<Rightarrow> string" where
  "Itoa i = (if i < 0 then CHR ''-'' # nat_digits (nat (- i)) else nat_digits (nat i))"

text \<open>
  \<open>strings.Index(s, c)\<close> for a one-byte needle: the index of the first occurrence,
  or \<open>-1\<close>.
\<close>

fun Index :: "string \<Rightarrow> char \<Rightarrow> int" where
  "Index [] c = -1"
| "Index (x # xs) c = (if x = c then 0 else (let r = Index xs c in if r = -1 then -1 else r + 1))"

text \<open>
  The slice expression \<open>s[lo:hi]\<close> on a string: it panics unless
  \<open>0 \<le> lo \<le> hi \<le> len(s)\<close>.
\<close>

definition string_slice :: "string \<Rightarrow> int \<Rightarrow> int \<Rightarrow> go_panic + string" where
  "string_slice s lo hi =
     (if 0 \<le> lo \<and> lo \<le> hi \<and> hi \<le> int (length s)
      then Inr (take (nat (hi - lo)) (drop (nat lo) s))
      else Inl SliceBoundsOutOfRange)"

text \<open>
  \<open>sort.Search(n, f)\<close>: the binary search of the Go library, with its loop
  \<open>for i < j { h := (i+j)/2; if !f(h) { i = h+1 } else { j = h } }\<close>.
\<close>

function Search_loop :: "nat \<Rightarrow> nat \<Rightarrow> (nat \<Rightarrow> bool) \<Rightarrow> nat" where
  "Search_loop i j f =
     (if i < j
      then (let h = (i + j) div 2
            in if \<not> f h then Search_loop (h + 1) j f else Search_loop i h f)
      else i)"
  by pat_completeness auto
termination
  by (relation "measure (\<lambda>(i, j, f). j - i)") auto

declare Search_loop.simps [simp del]

definition Search :: "nat \<Rightarrow> (nat \<Rightarrow> bool) \<Rightarrow> nat" where
  "Search n f = Search_loop 0 n f"

text \<open>
  \<open>crc32.ChecksumIEEE\<close>, the default hash function of the ring: the reflected CRC-32
  with polynomial \<open>0xEDB88320\<close>, initial value and final complement \<open>0xFFFFFFFF\<close>,
  computed bit by bit.
\<close>

fun crc_bits :: "nat \<Rightarrow> 32 word \<Rightarrow> 32 word" where
  "crc_bits 0 c = c"
| "crc_bits (Suc n) c =
     crc_bits n (if c AND 1 = 1 then drop_bit 1 c XOR 0xEDB88320 else drop_bit 1 c)"

fun crc_update :: "32 word \<Rightarrow> string \<Rightarrow> 32 word" where
  "crc_update c [] = c"
| "crc_update c (b # bs) = crc_update (crc_bits 8 (c XOR of_nat (of_char b))) bs"

definition ChecksumIEEE :: "string \<Rightarrow> 32 word" where
  "ChecksumIEEE data = NOT (crc_update 0xFFFFFFFF data)"

section \<open>The consistent-hash ring (lib/consistenthash)\<close>

type_synonym HashFunc = "string \<Rightarrow> 32 word"

text \<open>
  The struct \<open>Map\<close>. The field \<open>keys\<close> holds the virtual nodes' hashes as Go
  \<open>int\<close>s; \<open>int(uint32)\<close> is the unsigned value (\<open>int\<close> has 64 bits).
  \<open>hashMap\<close> maps a virtual node's hash to the physical node's address.
\<close>

record Map_ring =
  hashFunc :: HashFunc
  replicas :: int
  keys :: "int list"
  hashMap :: "int \<rightharpoonup> string"

definition New :: "int \<Rightarrow> HashFunc option \<Rightarrow> Map_ring" where
  "New r fn =
     \<lparr> hashFunc = (case fn of None \<Rightarrow> ChecksumIEEE | Some f \<Rightarrow> f),
       replicas = r, keys = [], hashMap = Map.empty \<rparr>"

definition IsEmpty :: "Map_ring \<Rightarrow> bool" where
  "IsEmpty m = (length (keys m) = 0)"

text \<open>The inner loop of \<open>AddNode\<close>: \<open>for i := 0; i < m.replicas; i++\<close>.\<close>

function addReplicas :: "int \<Rightarrow> string \<Rightarrow> Map_ring \<Rightarrow> Map_ring" where
  "addReplicas i key m =
     (if i < replicas m
      then (let hash = uint (hashFunc m (Itoa i @ key))
            in addReplicas (i + 1) key
                 (m\<lparr> keys := keys m @ [hash], hashMap := (hashMap m)(hash \<mapsto> key) \<rparr>))
      else m)"
  by pat_completeness auto
termination
  by (relation "measure (\<lambda>(i, key, m). nat (replicas m - i))") auto

declare addReplicas.simps [simp del]

text \<open>The outer loop over the given addresses; an empty address is skipped.\<close>

fun addNodes :: "string list \<Rightarrow> Map_ring \<Rightarrow> Map_ring" where
  "addNodes [] m = m"
| "addNodes (key # ks) m =
     (if key = [] then addNodes ks m else addNodes ks (addReplicas 0 key m))"

text \<open>
  \<open>sort.Ints\<close> leaves the ascending arrangement of the slice; for integers that
  arrangement is unique, so it is \<open>sort\<close>.
\<close>

definition AddNode :: "Map_ring \<Rightarrow> string list \<Rightarrow> Map_ring" where
  "AddNode m ks = (let m' = addNodes ks m in m'\<lparr> keys := sort (keys m') \<rparr>)"

text \<open>
  \<open>getPartitionKey\<close>: both braces are searched from the start of the key, and the
  slice \<open>key[beg+1 : end]\<close> panics when \<open>end < beg+1\<close>.
\<close>

definition getPartitionKey :: "string \<Rightarrow> go_panic + string" where
  "getPartitionKey key =
     (let beg = Index key CHR ''{''
      in if beg = -1 then Inr key
         else (let end = Index key CHR ''}''
               in if end = -1 \<or> end = beg + 1 then Inr key
                  else string_slice key (beg + 1) end))"

text \<open>
  \<open>PickNode\<close>. A lookup of a missing key in a Go map gives the zero value, the empty
  string.
\<close>

definition PickNode :: "Map_ring \<Rightarrow> string \<Rightarrow> go_panic + string" where
  "PickNode m key =
     (if IsEmpty m then Inr []
      else (case getPartitionKey key of
              Inl p \<Rightarrow> Inl p
            | Inr partitionKey \<Rightarrow>
                (let hash = uint (hashFunc m partitionKey);
                     idx = Search (length (keys m)) (\<lambda>i. keys m ! i \<ge> hash);
                     idx' = (if idx = length (keys m) then 0 else idx)
                 in Inr (case hashMap m (keys m ! idx') of None \<Rightarrow> [] | Some a \<Rightarrow> a))))"

text \<open>
  The ring reached from \<open>New(r, fn)\<close> by a sequence of \<open>AddNode\<close> calls, and the
  non-empty addresses those calls were given, in order and with repetitions.
\<close>

definition ring_after :: "int \<Rightarrow> HashFunc option \<Rightarrow> string list list \<Rightarrow> Map_ring" where
  "ring_after r fn calls = foldl AddNode (New r fn) calls"

definition added_addrs :: "string list list \<Rightarrow> string list" where
  "added_addrs calls = filter (\<lambda>a. a \<noteq> []) (concat calls)"

section \<open>The participant side of a TCC transaction (package cluster)\<close>

subsection \<open>Replies, connections and the local database\<close>

type_synonym CmdLine = "string list"

text \<open>
  The replies the participant builds (\<open>MakeErrReply\<close>, \<open>OkReply\<close>,
  \<open>MakeIntReply\<close>) and whatever else a command returns (\<open>BulkReply\<close>).
  \<open>IsErrorReply\<close> recognises the error reply.
\<close>

datatype Reply = ErrReply string | OkReply | IntReply int | BulkReply string

fun IsErrorReply :: "Reply \<Rightarrow> bool" where
  "IsErrorReply (ErrReply e) = True"
| "IsErrorReply r = False"

text \<open>Of a connection the code reads only the selected database (\<open>GetDBIndex\<close>).\<close>

record Connection =
  GetDBIndex :: int

text \<open>The struct \<open>Transaction\<close> (\<open>tx_id\<close> is its field \<open>id\<close>); the mutex \<open>mu\<close>
  has no state in a sequential run.\<close>

record Transaction =
  tx_id :: string
  cmdLine :: CmdLine
  conn :: Connection
  dbIndex :: int
  writeKeys :: "string list"
  readKeys :: "string list"
  keysLocked :: bool
  undoLog :: "CmdLine list"
  status :: int

definition createdStatus :: int where
  [simp]: "createdStatus = 0"

definition preparedStatus :: int where
  [simp]: "preparedStatus = 1"

definition committedStatus :: int where
  [simp]: "committedStatus = 2"

definition rolledBackStatus :: int where
  [simp]: "rolledBackStatus = 3"

text \<open>Durations in seconds.\<close>

definition maxLockTime :: nat where
  "maxLockTime = 3"

definition waitBeforeCleanTx :: nat where
  "waitBeforeCleanTx = 2 * maxLockTime"

definition genTaskKey :: "string \<Rightarrow> string" where
  "genTaskKey txID = ''tx:'' @ txID"

text \<open>
  A callback handed to \<open>timewheel.Delay\<close>: the abort callback of \<open>prepare\<close>
  closes over the transaction object, the clean-up callback removes the table entry of
  \<open>tx.id\<close>. A scheduled task is the delay, the key and the callback.
\<close>

datatype timer_job = AbortTx nat | CleanTx string

record timer_task =
  task_delay :: nat
  task_key :: string
  task_job :: timer_job

text \<open>
  The node's state. \<open>Transaction\<close> values are shared through pointers (the table,
  the timer callbacks and the running handler all hold the same object), so they live in
  a store \<open>txs\<close> indexed by address, \<open>next_tx\<close> being the next free address;
  \<open>transactions\<close> is the table from a transaction id to the address. \<open>timers\<close>
  lists the tasks given to the timer wheel, and \<open>executed\<close> records every command
  passed to \<open>db.ExecWithLock\<close>, oldest first.
\<close>

record 'db Cluster =
  db :: 'db
  txs :: "nat \<Rightarrow> Transaction"
  next_tx :: nat
  transactions :: "string \<rightharpoonup> nat"
  timers :: "timer_task list"
  executed :: "CmdLine list"

text \<open>
  What the package takes from outside: the local database's operations, the key analysis
  \<open>database.GetRelatedKeys\<close>, \<open>strings.ToLower\<close> and the registered prepare
  hooks (\<open>prepareFuncMap\<close>, a \<open>CmdFunc\<close> per command name).
\<close>

record 'db cluster_env =
  ExecWithLock :: "'db \<Rightarrow> Connection \<Rightarrow> CmdLine \<Rightarrow> Reply \<times> 'db"
  GetUndoLogs :: "'db \<Rightarrow> int \<Rightarrow> CmdLine \<Rightarrow> CmdLine list"
  RWLocks :: "'db \<Rightarrow> int \<Rightarrow> string list \<Rightarrow> string list \<Rightarrow> 'db"
  RWUnLocks :: "'db \<Rightarrow> int \<Rightarrow> string list \<Rightarrow> string list \<Rightarrow> 'db"
  GetRelatedKeys :: "CmdLine \<Rightarrow> string list \<times> string list"
  ToLower :: "string \<Rightarrow> string"
  prepareFuncMap :: "string \<rightharpoonup> ('db Cluster \<Rightarrow> Connection \<Rightarrow> CmdLine \<Rightarrow> Reply \<times> 'db Cluster)"

subsection \<open>Transactions\<close>

definition NewTransaction :: "Connection \<Rightarrow> string \<Rightarrow> CmdLine \<Rightarrow> Transaction" where
  "NewTransaction c txid cl =
     \<lparr> tx_id = txid, cmdLine = cl, conn = c, dbIndex = GetDBIndex c,
       writeKeys = [], readKeys = [], keysLocked = False, undoLog = [],
       status = createdStatus \<rparr>"

definition update_tx :: "nat \<Rightarrow> (Transaction \<Rightarrow> Transaction) \<Rightarrow> 'db Cluster \<Rightarrow> 'db Cluster" where
  "update_tx p f s = s\<lparr> txs := (txs s)(p := f (txs s p)) \<rparr>"

definition Delay :: "nat \<Rightarrow> string \<Rightarrow> timer_job \<Rightarrow> 'db Cluster \<Rightarrow> 'db Cluster" where
  "Delay d k j s = s\<lparr> timers := timers s @ [\<lparr> task_delay = d, task_key = k, task_job = j \<rparr>] \<rparr>"

definition lockKeys :: "'db cluster_env \<Rightarrow> nat \<Rightarrow> 'db Cluster \<Rightarrow> 'db Cluster" where
  "lockKeys E p s =
     (let tx = txs s p
      in if \<not> keysLocked tx
         then update_tx p (\<lambda>t. t\<lparr> keysLocked := True \<rparr>)
                (s\<lparr> db := RWLocks E (db s) (dbIndex tx) (writeKeys tx) (readKeys tx) \<rparr>)
         else s)"

definition unLockKeys :: "'db cluster_env \<Rightarrow> nat \<Rightarrow> 'db Cluster \<Rightarrow> 'db Cluster" where
  "unLockKeys E p s =
     (let tx = txs s p
      in if keysLocked tx
         then update_tx p (\<lambda>t. t\<lparr> keysLocked := False \<rparr>)
                (s\<lparr> db := RWUnLocks E (db s) (dbIndex tx) (writeKeys tx) (readKeys tx) \<rparr>)
         else s)"

text \<open>One call of \<open>cluster.db.ExecWithLock\<close>: the reply and the state after it.\<close>

definition exec_db :: "'db cluster_env \<Rightarrow> Connection \<Rightarrow> CmdLine \<Rightarrow> 'db Cluster \<Rightarrow> Reply \<times> 'db Cluster" where
  "exec_db E c cl s =
     (let (r, d) = ExecWithLock E (db s) c cl
      in (r, s\<lparr> db := d, executed := executed s @ [cl] \<rparr>))"

text \<open>\<open>tx.prepare()\<close>; it always returns the nil error.\<close>

definition prepare :: "'db cluster_env \<Rightarrow> nat \<Rightarrow> 'db Cluster \<Rightarrow> string option \<times> 'db Cluster" where
  "prepare E p s =
     (let (wk, rk) = GetRelatedKeys E (cmdLine (txs s p));
          s1 = update_tx p (\<lambda>t. t\<lparr> writeKeys := wk, readKeys := rk \<rparr>) s;
          s2 = lockKeys E p s1;
          s3 = update_tx p
                 (\<lambda>t. t\<lparr> undoLog := GetUndoLogs E (db s2) (dbIndex t) (cmdLine t) \<rparr>) s2;
          s4 = update_tx p (\<lambda>t. t\<lparr> status := preparedStatus \<rparr>) s3;
          taskKey = genTaskKey (tx_id (txs s4 p))
      in (None, Delay maxLockTime taskKey (AbortTx p) s4))"

text \<open>
  \<open>tx.rollbackWithLock()\<close>, with the comparison of \<open>tx.status\<close> against
  \<open>curStatus\<close> as the source has it. The result is the error (\<open>None\<close> is nil).
\<close>

definition rollbackWithLock :: "'db cluster_env \<Rightarrow> nat \<Rightarrow> 'db Cluster \<Rightarrow> string option \<times> 'db Cluster" where
  "rollbackWithLock E p s =
     (let curStatus = status (txs s p)
      in if status (txs s p) \<noteq> curStatus
         then (Some (''tx '' @ tx_id (txs s p) @ '' status changed''), s)
         else if status (txs s p) = rolledBackStatus then (None, s)
         else (let s1 = lockKeys E p s;
                   s2 = foldl (\<lambda>st cl. snd (exec_db E (conn (txs st p)) cl st)) s1
                          (undoLog (txs s1 p));
                   s3 = unLockKeys E p s2
               in (None, update_tx p (\<lambda>t. t\<lparr> status := rolledBackStatus \<rparr>) s3)))"

text \<open>The callback \<open>prepare\<close> schedules after \<open>maxLockTime\<close>, and the clean-up callback.\<close>

fun run_job :: "'db cluster_env \<Rightarrow> timer_job \<Rightarrow> 'db Cluster \<Rightarrow> 'db Cluster" where
  "run_job E (AbortTx p) s =
     (if status (txs s p) = preparedStatus then snd (rollbackWithLock E p s) else s)"
| "run_job E (CleanTx txid) s = s\<lparr> transactions := (transactions s)(txid := None) \<rparr>"

subsection \<open>The participant's command handlers\<close>

definition execPrepare :: "'db cluster_env \<Rightarrow> Connection \<Rightarrow> CmdLine \<Rightarrow> 'db Cluster \<Rightarrow> Reply \<times> 'db Cluster" where
  "execPrepare E c cl s =
     (if length cl < 3
      then (ErrReply ''ERR wrong number of arguments for 'prepare' command'', s)
      else (let txID = cl ! 1;
                cmdName = ToLower E (cl ! 2);
                p = next_tx s;
                s1 = s\<lparr> txs := (txs s)(p := NewTransaction c txID (drop 2 cl)),
                        next_tx := Suc p \<rparr>;
                s2 = s1\<lparr> transactions := (transactions s1)(txID \<mapsto> p) \<rparr>;
                (err, s3) = prepare E p s2
            in case err of
                 Some e \<Rightarrow> (ErrReply e, s3)
               | None \<Rightarrow>
                   (case prepareFuncMap E cmdName of
                      Some prepareFunc \<Rightarrow> prepareFunc s3 c (drop 2 cl)
                    | None \<Rightarrow> (OkReply, s3))))"

definition execRollback :: "'db cluster_env \<Rightarrow> Connection \<Rightarrow> CmdLine \<Rightarrow> 'db Cluster \<Rightarrow> Reply \<times> 'db Cluster" where
  "execRollback E c cl s =
     (if length cl \<noteq> 2
      then (ErrReply ''ERR wrong number of arguments for 'rollback' command'', s)
      else (case transactions s (cl ! 1) of
              None \<Rightarrow> (IntReply 0, s)
            | Some p \<Rightarrow>
                (let (err, s1) = rollbackWithLock E p s
                 in case err of
                      Some e \<Rightarrow> (ErrReply e, s1)
                    | None \<Rightarrow>
                        (IntReply 1,
                         Delay waitBeforeCleanTx [] (CleanTx (tx_id (txs s1 p))) s1))))"

text \<open>
  The text \<open>fmt.Sprintf\<close> builds in \<open>execCommit\<close>: \<open>%v\<close> of a nil error prints
  \<open><nil>\<close>, \<open>%s\<close> of the error reply prints its message.
\<close>

fun reply_text :: "Reply \<Rightarrow> string" where
  "reply_text (ErrReply e) = e"
| "reply_text OkReply = ''OK''"
| "reply_text (IntReply i) = Itoa i"
| "reply_text (BulkReply b) = b"

definition commit_failure_text :: "string option \<Rightarrow> Reply \<Rightarrow> string" where
  "commit_failure_text err2 result =
     ''err occurs when rollback: '' @ (case err2 of None \<Rightarrow> ''<nil>'' | Some e \<Rightarrow> e)
       @ '', origin err: '' @ reply_text result"

definition execCommit :: "'db cluster_env \<Rightarrow> Connection \<Rightarrow> CmdLine \<Rightarrow> 'db Cluster \<Rightarrow> Reply \<times> 'db Cluster" where
  "execCommit E c cl s =
     (if length cl \<noteq> 2
      then (ErrReply ''ERR wrong number of arguments for 'commit' command'', s)
      else (case transactions s (cl ! 1) of
              None \<Rightarrow> (IntReply 0, s)
            | Some p \<Rightarrow>
                (let (result, s1) = exec_db E c (cmdLine (txs s p)) s
                 in if IsErrorReply result
                    then (let (err2, s2) = rollbackWithLock E p s1
                          in (ErrReply (commit_failure_text err2 result), s2))
                    else (let s2 = unLockKeys E p s1;
                              s3 = update_tx p (\<lambda>t. t\<lparr> status := committedStatus \<rparr>) s2
                          in (result,
                              Delay waitBeforeCleanTx [] (CleanTx (tx_id (txs s3 p))) s3)))))"

subsection \<open>A small key-value database to run the handlers on\<close>

text \<open>
  A database with the commands \<open>SET k v\<close>, \<open>DEL k\<close> and \<open>EXISTS k\<close>, the held
  key locks as a list, and a prepare hook for \<open>SETNX\<close> that asks the database, through
  \<open>ExecWithLock\<close>, whether the key exists and rejects a key already present. It
  instantiates \<open>cluster_env\<close> where a handler is evaluated on a concrete state.
\<close>

record kv_db =
  kv_data :: "string \<rightharpoonup> string"
  kv_locks :: "string list"

fun kv_exec :: "kv_db \<Rightarrow> Connection \<Rightarrow> CmdLine \<Rightarrow> Reply \<times> kv_db" where
  "kv_exec d c [cmd, k, v] =
     (if cmd = ''SET'' \<or> cmd = ''SETNX''
      then (OkReply, d\<lparr> kv_data := (kv_data d)(k \<mapsto> v) \<rparr>)
      else (ErrReply ''ERR unknown command'', d))"
| "kv_exec d c [cmd, k] =
     (if cmd = ''DEL''
      then (IntReply (if kv_data d k = None then 0 else 1), d\<lparr> kv_data := (kv_data d)(k := None) \<rparr>)
      else if cmd = ''EXISTS''
      then (IntReply (if kv_data d k = None then 0 else 1), d)
      else (ErrReply ''ERR unknown command'', d))"
| "kv_exec d c cl = (ErrReply ''ERR unknown command'', d)"

fun kv_undo :: "kv_db \<Rightarrow> int \<Rightarrow> CmdLine \<Rightarrow> CmdLine list" where
  "kv_undo d i (cmd # k # rest) =
     (case kv_data d k of None \<Rightarrow> [[''DEL'', k]] | Some old \<Rightarrow> [[''SET'', k, old]])"
| "kv_undo d i cl = []"

fun kv_related :: "CmdLine \<Rightarrow> string list \<times> string list" where
  "kv_related (cmd # k # rest) = ([k], [])"
| "kv_related cl = ([], [])"

definition kv_lock :: "kv_db \<Rightarrow> int \<Rightarrow> string list \<Rightarrow> string list \<Rightarrow> kv_db" where
  "kv_lock d i wk rk = d\<lparr> kv_locks := kv_locks d @ wk @ rk \<rparr>"

definition kv_unlock :: "kv_db \<Rightarrow> int \<Rightarrow> string list \<Rightarrow> string list \<Rightarrow> kv_db" where
  "kv_unlock d i wk rk = d\<lparr> kv_locks := filter (\<lambda>k. k \<notin> set (wk @ rk)) (kv_locks d) \<rparr>"

definition ascii_lower :: "string \<Rightarrow> string" where
  "ascii_lower s =
     map (\<lambda>c. let n = (of_char c :: nat) in if 65 \<le> n \<and> n \<le> 90 then char_of (n + 32) else c) s"

fun kv_prepareSetNX :: "kv_db Cluster \<Rightarrow> Connection \<Rightarrow> CmdLine \<Rightarrow> Reply \<times> kv_db Cluster" where
  "kv_prepareSetNX s c (cmd # k # rest) =
     (let (re, d) = kv_exec (db s) c [''EXISTS'', k];
          s1 = s\<lparr> db := d, executed := executed s @ [[''EXISTS'', k]] \<rparr>
      in if IsErrorReply re then (re, s1)
         else if re = IntReply 0 then (OkReply, s1)
         else (ErrReply ''ERR key exists'', s1))"
| "kv_prepareSetNX s c cl = (ErrReply ''ERR wrong number of arguments'', s)"

definition kv_env :: "kv_db cluster_env" where
  "kv_env =
     \<lparr> ExecWithLock = kv_exec, GetUndoLogs = kv_undo, RWLocks = kv_lock,
       RWUnLocks = kv_unlock, GetRelatedKeys = kv_related, ToLower = ascii_lower,
       prepareFuncMap = [''setnx'' \<mapsto> kv_prepareSetNX] \<rparr>"

definition kv_conn :: Connection where
  "kv_conn = \<lparr> GetDBIndex = 0 \<rparr>"

definition kv_node :: "(string \<rightharpoonup> string) \<Rightarrow> kv_db Cluster" where
  "kv_node m =
     \<lparr> db = \<lparr> kv_data = m, kv_locks = [] \<rparr>,
       txs = (\<lambda>p. NewTransaction kv_conn [] []), next_tx = 0,
       transactions = Map.empty, timers = [], executed = [] \<rparr>"

text \<open>
  The state in which \<open>execPrepare\<close> calls the prepare hook: the new transaction is
  stored in the table and \<open>tx.prepare()\<close> has run.
\<close>

definition prepared_state :: "'db cluster_env \<Rightarrow> Connection \<Rightarrow> CmdLine \<Rightarrow> 'db Cluster \<Rightarrow> 'db Cluster" where
  "prepared_state E c cl s =
     snd (prepare E (next_tx s)
            (s\<lparr> txs := (txs s)(next_tx s := NewTransaction c (cl ! 1) (drop 2 cl)),
                next_tx := Suc (next_tx s),
                transactions := (transactions s)(cl ! 1 \<mapsto> next_tx s) \<rparr>))"

text \<open>
  The database after the commands \<open>cls\<close> have gone through \<open>ExecWithLock\<close> on the
  connection \<open>c\<close>, in turn.
\<close>

definition exec_all :: "'db cluster_env \<Rightarrow> Connection \<Rightarrow> CmdLine list \<Rightarrow> 'db \<Rightarrow> 'db" where
  "exec_all E c cls d = foldl (\<lambda>d' cl. snd (ExecWithLock E d' c cl)) d cls"

text \<open>
  \<open>db_only s s'\<close>: from \<open>s\<close> to \<open>s'\<close> the transaction records, the table and the
  scheduled tasks are as they were; the database and the record of the commands passed
  to it may have changed. Every run of \<open>ExecWithLock\<close> calls is of this kind.
\<close>

definition db_only :: "'db Cluster \<Rightarrow> 'db Cluster \<Rightarrow> bool" where
  "db_only s s' =
     (txs s' = txs s \<and> next_tx s' = next_tx s \<and> transactions s' = transactions s \<and>
      timers s' = timers s)"

text \<open>
  Two runs on the key-value database: \<open>Prepare 1 SET k v\<close> on an empty node, and the
  same node after the abort timer of that transaction has fired.
\<close>

definition kv_prepared :: "kv_db Cluster" where
  "kv_prepared =
     snd (execPrepare kv_env kv_conn [''prepare'', ''1'', ''SET'', ''k'', ''v''] (kv_node Map.empty))"

definition kv_aborted :: "kv_db Cluster" where
  "kv_aborted = run_job kv_env (AbortTx 0) kv_prepared"

section \<open>The AOF rewrite (package aof)\<close>

subsection \<open>Files\<close>

text \<open>
  The file system the rewrite works on. A file is an inode holding bytes; \<open>dir\<close> maps a
  path to its inode, so that a rename moves a name and leaves the handles that are open
  on either file where they are. An open \<open>*os.File\<close> is an entry of \<open>ofiles\<close>: the
  name it was opened under (\<open>Name()\<close>), its inode, its offset, whether it was opened with
  \<open>O_APPEND\<close>, and whether it has been closed. \<open>tmp_names\<close> are the names
  \<open>ioutil.TempFile\<close> will try, in turn. \<open>faults\<close> scripts the outcomes of the coming
  I/O calls, one per call, an exhausted script meaning success: \<open>Fail n\<close> makes the
  call return an error, a write or a copy after \<open>n\<close> bytes have gone through.
\<close>

type_synonym path = string
type_synonym bytes = string

datatype io_outcome = Succeed | Fail nat

record ofile =
  of_name :: path
  of_ino :: nat
  of_pos :: nat
  of_append :: bool
  of_closed :: bool

record fsys =
  inodes :: "nat \<Rightarrow> bytes"
  next_ino :: nat
  dir :: "path \<rightharpoonup> nat"
  ofiles :: "nat \<Rightarrow> ofile"
  next_fd :: nat
  tmp_names :: "path list"
  faults :: "io_outcome list"

definition file_content :: "fsys \<Rightarrow> path \<Rightarrow> bytes option" where
  "file_content fs name = (case dir fs name of None \<Rightarrow> None | Some i \<Rightarrow> Some (inodes fs i))"

definition next_outcome :: "fsys \<Rightarrow> io_outcome \<times> fsys" where
  "next_outcome fs =
     (case faults fs of [] \<Rightarrow> (Succeed, fs) | out # rest \<Rightarrow> (out, fs\<lparr> faults := rest \<rparr>))"

definition new_handle :: "path \<Rightarrow> nat \<Rightarrow> bool \<Rightarrow> fsys \<Rightarrow> nat \<times> fsys" where
  "new_handle name i app fs =
     (next_fd fs,
      fs\<lparr> ofiles := (ofiles fs)(next_fd fs :=
              \<lparr> of_name = name, of_ino = i, of_pos = 0, of_append = app, of_closed = False \<rparr>),
          next_fd := Suc (next_fd fs) \<rparr>)"

text \<open>\<open>os.Open(name)\<close>: a read-only handle at offset 0.\<close>

definition os_Open :: "path \<Rightarrow> fsys \<Rightarrow> (string + nat) \<times> fsys" where
  "os_Open name fs =
     (let (out, fs1) = next_outcome fs
      in case out of
           Fail n \<Rightarrow> (Inl ''open: input/output error'', fs1)
         | Succeed \<Rightarrow>
             (case dir fs1 name of
                None \<Rightarrow> (Inl ''open: no such file or directory'', fs1)
              | Some i \<Rightarrow> (let (fd, fs2) = new_handle name i False fs1 in (Inr fd, fs2))))"

text \<open>\<open>os.OpenFile(name, O_APPEND|O_CREATE|O_RDWR, 0600)\<close>: creates the file when missing.\<close>

definition os_OpenFile :: "path \<Rightarrow> fsys \<Rightarrow> (string + nat) \<times> fsys" where
  "os_OpenFile name fs =
     (let (out, fs1) = next_outcome fs
      in case out of
           Fail n \<Rightarrow> (Inl ''open: input/output error'', fs1)
         | Succeed \<Rightarrow>
             (case dir fs1 name of
                None \<Rightarrow>
                  (let i = next_ino fs1;
                       fs2 = fs1\<lparr> inodes := (inodes fs1)(i := []), next_ino := Suc i,
                                 dir := (dir fs1)(name \<mapsto> i) \<rparr>;
                       (fd, fs3) = new_handle name i True fs2
                   in (Inr fd, fs3))
              | Some i \<Rightarrow> (let (fd, fs2) = new_handle name i True fs1 in (Inr fd, fs2))))"

text \<open>\<open>f.Seek(offset, 0)\<close>; a negative offset is an error, one past the end is not.\<close>

definition file_Seek :: "nat \<Rightarrow> int \<Rightarrow> fsys \<Rightarrow> (string + int) \<times> fsys" where
  "file_Seek fd off fs =
     (let (out, fs1) = next_outcome fs
      in case out of
           Fail n \<Rightarrow> (Inl ''seek: input/output error'', fs1)
         | Succeed \<Rightarrow>
             (if of_closed (ofiles fs1 fd) then (Inl ''seek: file already closed'', fs1)
              else if off < 0 then (Inl ''seek: invalid argument'', fs1)
              else (Inr off,
                    fs1\<lparr> ofiles := (ofiles fs1)(fd := (ofiles fs1 fd)\<lparr> of_pos := nat off \<rparr>) \<rparr>)))"

text \<open>
  Bytes put into a file at an offset: they replace what was there and extend the file,
  a gap past the old end reading as zero bytes.
\<close>

definition write_at :: "bytes \<Rightarrow> nat \<Rightarrow> bytes \<Rightarrow> bytes" where
  "write_at old pos data =
     take pos old @ replicate (pos - length old) (CHR 0x00) @ data @ drop (pos + length data) old"

text \<open>
  The bytes \<open>data\<close> going into the file behind the handle \<open>fd\<close>: at the end of the
  file for an \<open>O_APPEND\<close> handle, at the handle's offset otherwise.
\<close>

definition put_bytes :: "nat \<Rightarrow> bytes \<Rightarrow> fsys \<Rightarrow> fsys" where
  "put_bytes fd data fs =
     (let f = ofiles fs fd;
          old = inodes fs (of_ino f);
          start = (if of_append f then length old else of_pos f)
      in fs\<lparr> inodes := (inodes fs)(of_ino f := write_at old start data),
             ofiles := (ofiles fs)(fd := f\<lparr> of_pos := start + length data \<rparr>) \<rparr>)"

definition through :: "io_outcome \<Rightarrow> bytes \<Rightarrow> bytes" where
  "through out data = (case out of Succeed \<Rightarrow> data | Fail n \<Rightarrow> take n data)"

text \<open>\<open>f.Write(data)\<close>.\<close>

definition file_Write :: "nat \<Rightarrow> bytes \<Rightarrow> fsys \<Rightarrow> (string + nat) \<times> fsys" where
  "file_Write fd data fs =
     (let (out, fs1) = next_outcome fs
      in if of_closed (ofiles fs1 fd) then (Inl ''write: file already closed'', fs1)
         else (let fs2 = put_bytes fd (through out data) fs1
               in case out of
                    Fail n \<Rightarrow> (Inl ''write: input/output error'', fs2)
                  | Succeed \<Rightarrow> (Inr (length data), fs2)))"

text \<open>
  \<open>io.Copy(dst, src)\<close>: the bytes of \<open>src\<close> from its offset to its end go to
  \<open>dst\<close>. The two handles are on different files wherever the rewrite calls it.
\<close>

definition io_Copy :: "nat \<Rightarrow> nat \<Rightarrow> fsys \<Rightarrow> (string + nat) \<times> fsys" where
  "io_Copy dst src fs =
     (let (out, fs1) = next_outcome fs
      in if of_closed (ofiles fs1 src) \<or> of_closed (ofiles fs1 dst)
         then (Inl ''copy: file already closed'', fs1)
         else (let s = ofiles fs1 src;
                   data = through out (drop (of_pos s) (inodes fs1 (of_ino s)));
                   fs2 = fs1\<lparr> ofiles := (ofiles fs1)(src := s\<lparr> of_pos := of_pos s + length data \<rparr>) \<rparr>;
                   fs3 = put_bytes dst data fs2
               in case out of
                    Fail n \<Rightarrow> (Inl ''copy: input/output error'', fs3)
                  | Succeed \<Rightarrow> (Inr (length data), fs3)))"

text \<open>\<open>f.Close()\<close>: the handle is closed whatever the call reports.\<close>

definition file_Close :: "nat \<Rightarrow> fsys \<Rightarrow> string option \<times> fsys" where
  "file_Close fd fs =
     (let (out, fs1) = next_outcome fs;
          fs2 = fs1\<lparr> ofiles := (ofiles fs1)(fd := (ofiles fs1 fd)\<lparr> of_closed := True \<rparr>) \<rparr>
      in if of_closed (ofiles fs1 fd) then (Some ''close: file already closed'', fs2)
         else (case out of Fail n \<Rightarrow> (Some ''close: input/output error'', fs2)
               | Succeed \<Rightarrow> (None, fs2)))"

text \<open>\<open>f.Sync()\<close>.\<close>

definition file_Sync :: "nat \<Rightarrow> fsys \<Rightarrow> string option \<times> fsys" where
  "file_Sync fd fs =
     (let (out, fs1) = next_outcome fs
      in if of_closed (ofiles fs1 fd) then (Some ''sync: file already closed'', fs1)
         else (case out of Fail n \<Rightarrow> (Some ''sync: input/output error'', fs1)
               | Succeed \<Rightarrow> (None, fs1)))"

text \<open>\<open>os.Rename(old, new)\<close>: the name \<open>new\<close> now leads to the file of \<open>old\<close>.\<close>

definition os_Rename :: "path \<Rightarrow> path \<Rightarrow> fsys \<Rightarrow> string option \<times> fsys" where
  "os_Rename old new fs =
     (let (out, fs1) = next_outcome fs
      in case out of
           Fail n \<Rightarrow> (Some ''rename: input/output error'', fs1)
         | Succeed \<Rightarrow>
             (case dir fs1 old of
                None \<Rightarrow> (Some ''rename: no such file or directory'', fs1)
              | Some i \<Rightarrow>
                  (if old = new then (None, fs1)
                   else (None, fs1\<lparr> dir := ((dir fs1)(new \<mapsto> i))(old := None) \<rparr>))))"

text \<open>\<open>os.Stat(name)\<close>, of which the code reads the size.\<close>

definition os_Stat :: "path \<Rightarrow> fsys \<Rightarrow> (string + int) \<times> fsys" where
  "os_Stat name fs =
     (let (out, fs1) = next_outcome fs
      in case out of
           Fail n \<Rightarrow> (Inl ''stat: input/output error'', fs1)
         | Succeed \<Rightarrow>
             (case dir fs1 name of
                None \<Rightarrow> (Inl ''stat: no such file or directory'', fs1)
              | Some i \<Rightarrow> (Inr (int (length (inodes fs1 i))), fs1)))"

text \<open>
  \<open>ioutil.TempFile("", "*.aof")\<close>: a new empty file under the first candidate name
  that is free, opened read-write at offset 0.
\<close>

fun free_name :: "(path \<rightharpoonup> nat) \<Rightarrow> path list \<Rightarrow> (path \<times> path list) option" where
  "free_name d [] = None"
| "free_name d (n # ns) = (if d n = None then Some (n, ns) else free_name d ns)"

definition ioutil_TempFile :: "fsys \<Rightarrow> (string + nat) \<times> fsys" where
  "ioutil_TempFile fs =
     (let (out, fs1) = next_outcome fs
      in case out of
           Fail n \<Rightarrow> (Inl ''tempfile: input/output error'', fs1)
         | Succeed \<Rightarrow>
             (case free_name (dir fs1) (tmp_names fs1) of
                None \<Rightarrow> (Inl ''tempfile: file exists'', fs1)
              | Some (name, rest) \<Rightarrow>
                  (let i = next_ino fs1;
                       fs2 = fs1\<lparr> inodes := (inodes fs1)(i := []), next_ino := Suc i,
                                 dir := (dir fs1)(name \<mapsto> i), tmp_names := rest \<rparr>;
                       (fd, fs3) = new_handle name i False fs2
                   in (Inr fd, fs3))))"

subsection \<open>The handler and the rewrite\<close>

text \<open>
  Of the struct \<open>Handler\<close> the rewrite uses the file name, the open file and the
  selected database; the mutex \<open>pausingAof\<close> has no state in a sequential run.
\<close>

record Handler =
  aofFilename :: path
  aofFile :: nat
  currentDB :: int

record RewriteCtx =
  tmpFile :: nat
  fileSize :: int
  dbIdx :: int

text \<open>
  What the rewrite takes from outside, for entities \<open>'e\<close> and expiration times
  \<open>'t\<close>: \<open>config.Properties.Databases\<close>; \<open>EntityToCmd\<close> and \<open>MakeExpireCmd\<close>,
  which return a command or nil; \<open>ToBytes\<close>, the bytes of the multi-bulk reply made of
  a command line; and \<open>LoadAof\<close>, which stands for
  \<open>newRewriteHandler\<close> followed by \<open>tmpAof.LoadAof(maxBytes)\<close>: from the file
  system, the AOF's name and \<open>maxBytes\<close> it gives the scratch database, as the list
  \<open>ForEach\<close> visits for each database index.
\<close>

record ('e, 't) aof_env =
  Databases :: int
  EntityToCmd :: "string \<Rightarrow> 'e \<Rightarrow> CmdLine option"
  MakeExpireCmd :: "string \<Rightarrow> 't \<Rightarrow> CmdLine option"
  ToBytes :: "CmdLine \<Rightarrow> bytes"
  LoadAof :: "fsys \<Rightarrow> path \<Rightarrow> int \<Rightarrow> (int \<Rightarrow> (string \<times> 'e \<times> 't option) list)"

definition ToCmdLine :: "string list \<Rightarrow> CmdLine" where
  "ToCmdLine cmd = cmd"

text \<open>The bytes of \<open>MakeMultiBulkReply(ToCmdLine("SELECT", strconv.Itoa(i))).ToBytes()\<close>.\<close>

definition select_frame :: "('e, 't) aof_env \<Rightarrow> int \<Rightarrow> bytes" where
  "select_frame E i = ToBytes E (ToCmdLine [''SELECT'', Itoa i])"

text \<open>
  The callback \<open>DoRewrite\<close> gives to \<open>ForEach\<close>: the results of both writes are
  dropped, and the expiration is handled whether or not the entity had a command.
\<close>

fun write_entry :: "('e, 't) aof_env \<Rightarrow> nat \<Rightarrow> fsys \<Rightarrow> string \<times> 'e \<times> 't option \<Rightarrow> fsys" where
  "write_entry E tmp fs (key, entity, expiration) =
     (let fs1 = (case EntityToCmd E key entity of
                   None \<Rightarrow> fs
                 | Some cmd \<Rightarrow> snd (file_Write tmp (ToBytes E cmd) fs))
      in case expiration of
           None \<Rightarrow> fs1
         | Some t \<Rightarrow>
             (case MakeExpireCmd E key t of
                None \<Rightarrow> fs1
              | Some cmd \<Rightarrow> snd (file_Write tmp (ToBytes E cmd) fs1)))"

text \<open>The loop \<open>for i := 0; i < config.Properties.Databases; i++\<close> of \<open>DoRewrite\<close>.\<close>

function rewrite_dbs ::
  "('e, 't) aof_env \<Rightarrow> (int \<Rightarrow> (string \<times> 'e \<times> 't option) list) \<Rightarrow> nat \<Rightarrow> int \<Rightarrow> fsys
     \<Rightarrow> string option \<times> fsys" where
  "rewrite_dbs E sdb tmp i fs =
     (if i < Databases E
      then (case file_Write tmp (select_frame E i) fs of
              (Inl err, fs1) \<Rightarrow> (Some err, fs1)
            | (Inr n, fs1) \<Rightarrow>
                rewrite_dbs E sdb tmp (i + 1) (foldl (write_entry E tmp) fs1 (sdb i)))
      else (None, fs))"
  by pat_completeness auto
termination
  by (relation "measure (\<lambda>(E, sdb, tmp, i, fs). nat (Databases E - i))") auto

declare rewrite_dbs.simps [simp del]

definition DoRewrite :: "('e, 't) aof_env \<Rightarrow> Handler \<Rightarrow> RewriteCtx \<Rightarrow> fsys \<Rightarrow> string option \<times> fsys" where
  "DoRewrite E handler ctx fs =
     (let tmpAof_db = LoadAof E fs (aofFilename handler) (fileSize ctx)
      in rewrite_dbs E tmpAof_db (tmpFile ctx) 0 fs)"

text \<open>
  \<open>StartRewrite\<close>. The error of \<open>os.Stat\<close> is dropped, so a failed call leaves
  \<open>fileInfo\<close> nil and \<open>fileInfo.Size()\<close> panics.
\<close>

definition StartRewrite :: "Handler \<Rightarrow> fsys \<Rightarrow> (go_panic + string + RewriteCtx) \<times> fsys" where
  "StartRewrite handler fs =
     (case file_Sync (aofFile handler) fs of
        (Some err, fs1) \<Rightarrow> (Inr (Inl err), fs1)
      | (None, fs1) \<Rightarrow>
          (case os_Stat (aofFilename handler) fs1 of
             (Inl err, fs2) \<Rightarrow> (Inl NilDereference, fs2)
           | (Inr filesize, fs2) \<Rightarrow>
               (case ioutil_TempFile fs2 of
                  (Inl err, fs3) \<Rightarrow> (Inr (Inl err), fs3)
                | (Inr file, fs3) \<Rightarrow>
                    (Inr (Inr \<lparr> tmpFile = file, fileSize = filesize,
                                dbIdx = currentDB handler \<rparr>), fs3))))"

text \<open>
  \<open>FinishRewrite\<close> returns nothing; the outcome says how it ended: at its end, at one
  of the four returns after a logged error (with the logged text), or in one of the two
  panics. The deferred \<open>src.Close()\<close> runs on every way out once \<open>src\<close> is open.
\<close>

datatype finish_outcome = Finished | Aborted string | Panicked go_panic

definition FinishRewrite ::
  "('e, 't) aof_env \<Rightarrow> Handler \<Rightarrow> RewriteCtx \<Rightarrow> fsys \<Rightarrow> finish_outcome \<times> Handler \<times> fsys" where
  "FinishRewrite E handler ctx fs =
     (case os_Open (aofFilename handler) fs of
        (Inl err, fs1) \<Rightarrow> (Aborted (''open aofFilename failed: '' @ err), handler, fs1)
      | (Inr src, fs1) \<Rightarrow>
     (case file_Seek src (fileSize ctx) fs1 of
        (Inl err, fs2) \<Rightarrow>
          (Aborted (''seek failed: '' @ err), handler, snd (file_Close src fs2))
      | (Inr off, fs2) \<Rightarrow>
     (case file_Write (tmpFile ctx) (select_frame E (dbIdx ctx)) fs2 of
        (Inl err, fs3) \<Rightarrow>
          (Aborted (''tmp file rewrite failed: '' @ err), handler, snd (file_Close src fs3))
      | (Inr n, fs3) \<Rightarrow>
     (case io_Copy (tmpFile ctx) src fs3 of
        (Inl err, fs4) \<Rightarrow>
          (Aborted (''copy aof filed failed: '' @ err), handler, snd (file_Close src fs4))
      | (Inr n, fs4) \<Rightarrow>
          (let fs5 = snd (file_Close (aofFile handler) fs4);
               fs6 = snd (os_Rename (of_name (ofiles fs5 (tmpFile ctx))) (aofFilename handler) fs5)
           in case os_OpenFile (aofFilename handler) fs6 of
                (Inl err, fs7) \<Rightarrow> (Panicked (PanicErr err), handler, snd (file_Close src fs7))
              | (Inr aofFile', fs7) \<Rightarrow>
                  (let handler' = handler\<lparr> aofFile := aofFile' \<rparr>
                   in case file_Write (aofFile handler') (select_frame E (currentDB handler')) fs7 of
                        (Inl err, fs8) \<Rightarrow>
                          (Panicked (PanicErr err), handler', snd (file_Close src fs8))
                      | (Inr n, fs8) \<Rightarrow> (Finished, handler', snd (file_Close src fs8))))))))"

text \<open>\<open>Rewrite\<close>: the three phases in turn; it returns the error of the first two.\<close>

datatype rewrite_result = RewriteError string | RewritePanic go_panic | RewriteNil finish_outcome

definition Rewrite :: "('e, 't) aof_env \<Rightarrow> Handler \<Rightarrow> fsys \<Rightarrow> rewrite_result \<times> Handler \<times> fsys" where
  "Rewrite E handler fs =
     (case StartRewrite handler fs of
        (Inl p, fs1) \<Rightarrow> (RewritePanic p, handler, fs1)
      | (Inr (Inl err), fs1) \<Rightarrow> (RewriteError err, handler, fs1)
      | (Inr (Inr ctx), fs1) \<Rightarrow>
          (case DoRewrite E handler ctx fs1 of
             (Some err, fs2) \<Rightarrow> (RewriteError err, handler, fs2)
           | (None, fs2) \<Rightarrow>
               (case FinishRewrite E handler ctx fs2 of
                  (Panicked p, handler', fs3) \<Rightarrow> (RewritePanic p, handler', fs3)
                | (out, handler', fs3) \<Rightarrow> (RewriteNil out, handler', fs3))))"

subsection \<open>What the rewrite is to write, and what it is to leave alone\<close>

text \<open>
  The frames \<open>DoRewrite\<close> is to emit for a scratch database \<open>sdb\<close>: for each
  database index from 0 below \<open>Databases\<close> one SELECT frame, then for each entry the
  command \<open>EntityToCmd\<close> gives, when it gives one, and the command \<open>MakeExpireCmd\<close>
  gives, when the entry has an expiration.
\<close>

fun entry_frames :: "('e, 't) aof_env \<Rightarrow> string \<times> 'e \<times> 't option \<Rightarrow> bytes" where
  "entry_frames E (key, entity, expiration) =
     (case EntityToCmd E key entity of None \<Rightarrow> [] | Some cmd \<Rightarrow> ToBytes E cmd) @
     (case expiration of
        None \<Rightarrow> []
      | Some t \<Rightarrow> (case MakeExpireCmd E key t of None \<Rightarrow> [] | Some cmd \<Rightarrow> ToBytes E cmd))"

definition db_frames ::
  "('e, 't) aof_env \<Rightarrow> (int \<Rightarrow> (string \<times> 'e \<times> 't option) list) \<Rightarrow> int \<Rightarrow> bytes" where
  "db_frames E sdb i = select_frame E i @ concat (map (entry_frames E) (sdb i))"

definition db_indices :: "int \<Rightarrow> int \<Rightarrow> int list" where
  "db_indices i n = map (\<lambda>k. i + int k) [0..<nat (n - i)]"

definition dump_frames ::
  "('e, 't) aof_env \<Rightarrow> (int \<Rightarrow> (string \<times> 'e \<times> 't option) list) \<Rightarrow> bytes" where
  "dump_frames E sdb = concat (map (db_frames E sdb) (db_indices 0 (Databases E)))"

text \<open>
  A handle that writes at the end of its file: open, and either in append mode or with
  its offset at the end. The handle \<open>ioutil.TempFile\<close> returns is so, and stays so
  while it is only written through.
\<close>

definition at_end :: "fsys \<Rightarrow> nat \<Rightarrow> bool" where
  "at_end fs fd =
     (\<not> of_closed (ofiles fs fd) \<and>
      (of_append (ofiles fs fd) \<or> of_pos (ofiles fs fd) = length (inodes fs (of_ino (ofiles fs fd)))))"

text \<open>
  \<open>grown fd data fs fs'\<close>: from \<open>fs\<close> to \<open>fs'\<close> the file behind the handle \<open>fd\<close>
  has got \<open>data\<close> at its end, the handle still writes at the end, and nothing else has
  changed.
\<close>

definition grown :: "nat \<Rightarrow> bytes \<Rightarrow> fsys \<Rightarrow> fsys \<Rightarrow> bool" where
  "grown fd data fs fs' =
     (faults fs' = faults fs \<and> dir fs' = dir fs \<and> next_fd fs' = next_fd fs \<and>
      next_ino fs' = next_ino fs \<and> tmp_names fs' = tmp_names fs \<and>
      inodes fs' = (inodes fs)(of_ino (ofiles fs fd) := inodes fs (of_ino (ofiles fs fd)) @ data) \<and>
      ofiles fs' = (ofiles fs)(fd := ofiles fs' fd) \<and>
      of_ino (ofiles fs' fd) = of_ino (ofiles fs fd) \<and>
      of_name (ofiles fs' fd) = of_name (ofiles fs fd) \<and>
      at_end fs' fd)"

text \<open>
  \<open>only_tmp_touched tmp n fs fs'\<close>: from \<open>fs\<close> to \<open>fs'\<close> no name has moved, no
  file but the one behind the handle \<open>tmp\<close> has changed, and no handle numbered below
  \<open>n\<close> has changed but \<open>tmp\<close>, which is still on its file under its name and has
  not been closed. With \<open>n\<close> the next free handle number of \<open>fs\<close>, the handles
  below \<open>n\<close> are those that were open in \<open>fs\<close>.
\<close>

definition only_tmp_touched :: "nat \<Rightarrow> nat \<Rightarrow> fsys \<Rightarrow> fsys \<Rightarrow> bool" where
  "only_tmp_touched tmp n fs fs' =
     (dir fs' = dir fs \<and> next_fd fs \<le> next_fd fs' \<and>
      (\<forall>i. i \<noteq> of_ino (ofiles fs tmp) \<longrightarrow> inodes fs' i = inodes fs i) \<and>
      (\<forall>fd. fd \<noteq> tmp \<and> fd < n \<longrightarrow> ofiles fs' fd = ofiles fs fd) \<and>
      of_ino (ofiles fs' tmp) = of_ino (ofiles fs tmp) \<and>
      of_name (ofiles fs' tmp) = of_name (ofiles fs tmp) \<and>
      of_closed (ofiles fs' tmp) = of_closed (ofiles fs tmp))"

text \<open>
  The live AOF is untouched from \<open>fs\<close> to \<open>fs'\<close>: the file under the handler's
  \<open>aofFilename\<close> has the bytes it had, the handler's open file \<open>aofFile\<close> is the handle
  it was, on a file with the bytes it had; and the temporary file is still where it was,
  under its own name, its handle not closed.
\<close>

definition live_aof_untouched :: "Handler \<Rightarrow> RewriteCtx \<Rightarrow> fsys \<Rightarrow> fsys \<Rightarrow> bool" where
  "live_aof_untouched handler ctx fs fs' =
     (file_content fs' (aofFilename handler) = file_content fs (aofFilename handler) \<and>
      ofiles fs' (aofFile handler) = ofiles fs (aofFile handler) \<and>
      inodes fs' (of_ino (ofiles fs (aofFile handler))) =
        inodes fs (of_ino (ofiles fs (aofFile handler))) \<and>
      dir fs' = dir fs \<and>
      of_closed (ofiles fs' (tmpFile ctx)) = of_closed (ofiles fs (tmpFile ctx)))"

subsection \<open>A small rewrite to run\<close>

text \<open>
  An instance of \<open>aof_env\<close> with two databases: string entities, recreated by
  \<open>SET\<close>, and entities of a kind \<open>EntityToCmd\<close> has no command for; expirations in
  milliseconds, set by \<open>PEXPIREAT\<close>; frames in the multi-bulk encoding; and a loader
  that gives a fixed scratch database, with a key of each kind in database 0.
\<close>

datatype demo_entity = StringEntity string | OtherEntity

fun demo_EntityToCmd :: "string \<Rightarrow> demo_entity \<Rightarrow> CmdLine option" where
  "demo_EntityToCmd key (StringEntity v) = Some [''SET'', key, v]"
| "demo_EntityToCmd key OtherEntity = None"

definition demo_MakeExpireCmd :: "string \<Rightarrow> int \<Rightarrow> CmdLine option" where
  "demo_MakeExpireCmd key ms = Some [''PEXPIREAT'', key, Itoa ms]"

definition CRLF :: string where
  "CRLF = [CHR 0x0D, CHR 0x0A]"

definition multi_bulk :: "CmdLine \<Rightarrow> bytes" where
  "multi_bulk args =
     ''*'' @ Itoa (int (length args)) @ CRLF @
     concat (map (\<lambda>a. ''$'' @ Itoa (int (length a)) @ CRLF @ a @ CRLF) args)"

definition demo_scratch :: "int \<Rightarrow> (string \<times> demo_entity \<times> int option) list" where
  "demo_scratch i =
     (if i = 0 then [(''k'', StringEntity ''v'', Some 100), (''o'', OtherEntity, Some 200)]
      else [])"

definition demo_aof :: "(demo_entity, int) aof_env" where
  "demo_aof =
     \<lparr> Databases = 2, EntityToCmd = demo_EntityToCmd, MakeExpireCmd = demo_MakeExpireCmd,
       ToBytes = multi_bulk, LoadAof = (\<lambda>fs name maxBytes. demo_scratch) \<rparr>"

text \<open>
  A file system with the live AOF \<open>appendonly.aof\<close> (its bytes chosen freely), open
  for appending as handle 0 of the handler, which has database 1 selected.
\<close>

definition demo_handler :: Handler where
  "demo_handler = \<lparr> aofFilename = ''appendonly.aof'', aofFile = 0, currentDB = 1 \<rparr>"

definition demo_fs :: "bytes \<Rightarrow> io_outcome list \<Rightarrow> fsys" where
  "demo_fs live script =
     \<lparr> inodes = (\<lambda>i. if i = 0 then live else []), next_ino = 1,
       dir = [''appendonly.aof'' \<mapsto> 0],
       ofiles = (\<lambda>fd. \<lparr> of_name = ''appendonly.aof'', of_ino = 0, of_pos = 0,
                        of_append = True, of_closed = False \<rparr>),
       next_fd = 1, tmp_names = [''/tmp/1.aof''], faults = script \<rparr>"

text \<open>
  The context and the file system after \<open>StartRewrite\<close> on that file system (the live
  AOF holding \<open>OLD\<close>), after \<open>DoRewrite\<close>, and after an append of \<open>NEW\<close> to the
  live AOF that came while \<open>DoRewrite\<close> ran; \<open>script\<close> is given to the calls that
  follow.
\<close>

definition demo_ctx :: RewriteCtx where
  "demo_ctx = \<lparr> tmpFile = 1, fileSize = 3, dbIdx = 1 \<rparr>"

definition demo_started :: fsys where
  "demo_started = snd (StartRewrite demo_handler (demo_fs ''OLD'' []))"

definition demo_rewritten :: "io_outcome list \<Rightarrow> fsys" where
  "demo_rewritten script =
     (snd (file_Write 0 ''NEW'' (snd (DoRewrite demo_aof demo_handler demo_ctx demo_started))))
       \<lparr> faults := script \<rparr>"

section \<open>Properties of the hash ring\<close>

subsection \<open>AddNode\<close>

lemma addReplicas_replicas: "replicas (addReplicas i key m) = replicas m"
proof (induction i key m rule: addReplicas.induct)
  case (1 i key m)
  show ?case
  proof (cases "i < replicas m")
    case True
    with 1 show ?thesis by (subst addReplicas.simps) (simp add: Let_def)
  next
    case False
    then show ?thesis by (subst addReplicas.simps) simp
  qed
qed

lemma addReplicas_length:
  "length (keys (addReplicas i key m)) = length (keys m) + nat (replicas m - i)"
proof (induction i key m rule: addReplicas.induct)
  case (1 i key m)
  show ?case
  proof (cases "i < replicas m")
    case True
    with 1 show ?thesis by (subst addReplicas.simps) (simp add: Let_def nat_diff_distrib')
  next
    case False
    then show ?thesis by (subst addReplicas.simps) simp
  qed
qed

lemma addReplicas_dom:
  "set (keys m) \<subseteq> dom (hashMap m) \<Longrightarrow>
   set (keys (addReplicas i key m)) \<subseteq> dom (hashMap (addReplicas i key m))"
proof (induction i key m rule: addReplicas.induct)
  case (1 i key m)
  show ?case
  proof (cases "i < replicas m")
    case True
    let ?h = "uint (hashFunc m (Itoa i @ key))"
    let ?m' = "m\<lparr> keys := keys m @ [?h], hashMap := (hashMap m)(?h \<mapsto> key) \<rparr>"
    have inv: "set (keys ?m') \<subseteq> dom (hashMap ?m')" using "1.prems" by auto
    have "addReplicas i key m = addReplicas (i + 1) key ?m'"
      using True by (subst addReplicas.simps) (simp add: Let_def)
    with "1.IH" [OF True refl inv] show ?thesis by simp
  next
    case False
    with "1.prems" show ?thesis by (subst addReplicas.simps, simp)+
  qed
qed

lemma addNodes_replicas: "replicas (addNodes ks m) = replicas m"
  by (induction ks arbitrary: m) (simp_all add: addReplicas_replicas)

lemma addNodes_length:
  "length (keys (addNodes ks m)) =
     length (keys m) + nat (replicas m) * length (filter (\<lambda>a. a \<noteq> []) ks)"
  by (induction ks arbitrary: m) (simp_all add: addReplicas_replicas addReplicas_length)

lemma addNodes_dom:
  "set (keys m) \<subseteq> dom (hashMap m) \<Longrightarrow>
   set (keys (addNodes ks m)) \<subseteq> dom (hashMap (addNodes ks m))"
  by (induction ks arbitrary: m) (simp_all add: addReplicas_dom)

lemma AddNode_replicas: "replicas (AddNode m ks) = replicas m"
  by (simp add: AddNode_def Let_def addNodes_replicas)

lemma AddNode_length:
  "length (keys (AddNode m ks)) =
     length (keys m) + nat (replicas m) * length (filter (\<lambda>a. a \<noteq> []) ks)"
  by (simp add: AddNode_def Let_def addNodes_length)

lemma AddNode_sorted: "sorted (keys (AddNode m ks))"
  by (simp add: AddNode_def Let_def)

lemma AddNode_dom:
  "set (keys m) \<subseteq> dom (hashMap m) \<Longrightarrow>
   set (keys (AddNode m ks)) \<subseteq> dom (hashMap (AddNode m ks))"
  using addNodes_dom [of m ks] by (simp add: AddNode_def Let_def)

lemma foldl_AddNode_inv:
  "replicas (foldl AddNode m calls) = replicas m \<and>
   length (keys (foldl AddNode m calls)) =
     length (keys m) + nat (replicas m) * length (added_addrs calls) \<and>
   (set (keys m) \<subseteq> dom (hashMap m) \<longrightarrow>
      set (keys (foldl AddNode m calls)) \<subseteq> dom (hashMap (foldl AddNode m calls))) \<and>
   (sorted (keys m) \<longrightarrow> sorted (keys (foldl AddNode m calls)))"
proof (induction calls arbitrary: m)
  case Nil
  show ?case by (simp add: added_addrs_def)
next
  case (Cons ks calls)
  show ?case
    using Cons.IH [of "AddNode m ks"]
    by (simp add: AddNode_replicas AddNode_length AddNode_sorted AddNode_dom
        added_addrs_def distrib_left)
qed

text \<open>
  Claim C9, as the code has it. After any sequence of \<open>AddNode\<close> calls on a ring made
  by \<open>New(r, fn)\<close>, the number of entries of \<open>keys\<close> (the spec's sortedHashes) is
  \<open>r\<close> (0 when \<open>r\<close> is negative) times the number of non-empty addresses the calls
  were given, an address given twice counting twice; \<open>keys\<close> is sorted in non-decreasing
  order; and every entry of \<open>keys\<close> is a key of \<open>hashMap\<close> (the spec's hashToNode).
  When no address was given twice, the count is \<open>r\<close> times the number of distinct nodes.
\<close>

theorem AddNode_ring_invariant:
  "length (keys (ring_after r fn calls)) = nat r * length (added_addrs calls) \<and>
   sorted (keys (ring_after r fn calls)) \<and>
   set (keys (ring_after r fn calls)) \<subseteq> dom (hashMap (ring_after r fn calls)) \<and>
   (distinct (added_addrs calls) \<longrightarrow>
      length (keys (ring_after r fn calls)) = nat r * card (set (added_addrs calls)))"
  using foldl_AddNode_inv [of "New r fn" calls]
  by (simp add: ring_after_def New_def distinct_card)

theorem AddNode_ring_invariant_witness:
  "distinct (added_addrs [[''A'', []], [''B'']]) \<and>
   length (keys (ring_after 2 None [[''A'', []], [''B'']])) = 4 \<and>
   sorted (keys (ring_after 2 None [[''A'', []], [''B'']])) \<and>
   card (set (added_addrs [[''A'', []], [''B'']])) = 2"
  using AddNode_ring_invariant [of 2 None "[[''A'', []], [''B'']]"]
  by (simp add: added_addrs_def)

text \<open>
  Claim C9 as stated fails when a node is added twice: with one replica, adding the
  node \<open>A\<close> in two calls leaves two entries in \<open>keys\<close>, while \<open>replicas\<close> times
  the number of distinct nodes is one.
\<close>

theorem AddNode_duplicate_counterexample:
  "length (keys (ring_after 1 None [[''A''], [''A'']])) = 2 \<and>
   nat (replicas (ring_after 1 None [[''A''], [''A'']])) * card (set (added_addrs [[''A''], [''A'']])) = 1"
  by (simp add: ring_after_def AddNode_length AddNode_replicas New_def added_addrs_def)

subsection \<open>The partition key\<close>

lemma Index_range: "-1 \<le> Index xs c \<and> Index xs c < int (length xs)"
  by (induction xs) (auto simp: Let_def)

lemma Index_nth: "0 \<le> Index xs c \<Longrightarrow> xs ! nat (Index xs c) = c"
proof (induction xs)
  case Nil
  then show ?case by simp
next
  case (Cons x xs)
  show ?case
  proof (cases "x = c")
    case True
    then show ?thesis by simp
  next
    case False
    with Cons.prems have r: "0 \<le> Index xs c"
      using Index_range [of xs c] by (auto simp: Let_def split: if_splits)
    with False Cons.IH have "xs ! nat (Index xs c) = c" by simp
    with False r show ?thesis
      by (auto simp: Let_def nat_add_distrib)
  qed
qed

text \<open>
  \<open>getPartitionKey\<close> panics exactly on the keys whose first \<open>}\<close> stands before their
  first \<open>{\<close>.
\<close>

lemma getPartitionKey_panic_iff:
  "(getPartitionKey key = Inl SliceBoundsOutOfRange) \<longleftrightarrow>
   (0 \<le> Index key CHR ''}'' \<and> Index key CHR ''}'' < Index key CHR ''{'')"
proof -
  let ?b = "Index key CHR ''{''" and ?e = "Index key CHR ''}''"
  have rb: "-1 \<le> ?b \<and> ?b < int (length key)" by (rule Index_range)
  have re: "-1 \<le> ?e \<and> ?e < int (length key)" by (rule Index_range)
  have ne: "0 \<le> ?b \<Longrightarrow> 0 \<le> ?e \<Longrightarrow> ?b \<noteq> ?e"
    using Index_nth [of key "CHR ''{''"] Index_nth [of key "CHR ''}''"] by force
  show ?thesis
    using rb re ne
    by (auto simp: getPartitionKey_def Let_def string_slice_def)
qed

text \<open>
  Claim C4 says the extraction is total and takes the first \<open>}\<close> after the first
  \<open>{\<close>. The code searches \<open>}\<close> from the start of the key: on the key \<open>}{a\<close> it
  finds \<open>beg = 1\<close> and \<open>end = 0\<close>, and the slice \<open>key[2:0]\<close> panics, in
  \<open>getPartitionKey\<close> and so in \<open>PickNode\<close> on a ring with nodes.
\<close>

theorem getPartitionKey_panics:
  "getPartitionKey ''}{a'' = Inl SliceBoundsOutOfRange \<and>
   PickNode (AddNode (New 2 None) [''A'', ''B'']) ''}{a'' = Inl SliceBoundsOutOfRange"
  by code_simp

lemma Index_append_first:
  "Index (xs @ c # ys) c = int (length (takeWhile (\<lambda>x. x \<noteq> c) xs))"
proof (induction xs)
  case Nil
  show ?case by simp
next
  case (Cons x xs)
  then show ?case by (simp add: Let_def)
qed

lemma getPartitionKey_tagged:
  assumes "tag \<noteq> []" and "hd tag \<noteq> CHR ''}''"
  shows "getPartitionKey (CHR ''{'' # tag @ CHR ''}'' # rest) =
           Inr (takeWhile (\<lambda>x. x \<noteq> CHR ''}'') tag)"
proof -
  let ?P = "\<lambda>x. x \<noteq> CHR ''}''"
  let ?n = "length (takeWhile ?P tag)"
  let ?key = "CHR ''{'' # tag @ CHR ''}'' # rest"
  obtain t ts where tag: "tag = t # ts" using assms(1) by (cases tag) auto
  with assms(2) have t: "t \<noteq> CHR ''}''" by simp
  have n_pos: "0 < ?n" using tag t by simp
  have n_le: "?n \<le> length tag" by (rule length_takeWhile_le)
  have beg: "Index ?key CHR ''{'' = 0" by simp
  have "Index (tag @ CHR ''}'' # rest) CHR ''}'' = int ?n"
    by (rule Index_append_first)
  then have endv: "Index ?key CHR ''}'' = int ?n + 1"
    by (simp add: Let_def)
  have sl: "string_slice ?key 1 (int ?n + 1) = Inr (take ?n tag)"
    using n_le by (simp add: string_slice_def)
  have tk: "take ?n tag = takeWhile ?P tag"
    by (rule takeWhile_eq_take [symmetric])
  have "getPartitionKey ?key = string_slice ?key 1 (int ?n + 1)"
    unfolding getPartitionKey_def Let_def beg endv using n_pos by simp
  with sl tk show ?thesis by simp
qed

text \<open>
  Claim C5, as the code has it. For every ring and every tag that is not empty and does
  not begin with \<open>}\<close>, \<open>PickNode\<close> returns the same address for the keys
  \<open>{tag}x\<close> and \<open>{tag}y\<close>: both have the partition key that is the tag up to its
  first \<open>}\<close>.
\<close>

theorem PickNode_same_tag:
  assumes "tag \<noteq> []" and "hd tag \<noteq> CHR ''}''"
  shows "PickNode m (''{'' @ tag @ ''}x'') = PickNode m (''{'' @ tag @ ''}y'')"
  using getPartitionKey_tagged [OF assms, of "''x''"] getPartitionKey_tagged [OF assms, of "''y''"]
  by (simp add: PickNode_def)

theorem PickNode_same_tag_witness:
  "''user1'' \<noteq> [] \<and> hd ''user1'' \<noteq> CHR ''}'' \<and>
   PickNode (AddNode (New 3 None) [''A'', ''B'', ''C'']) (''{'' @ ''user1'' @ ''}x'') =
   PickNode (AddNode (New 3 None) [''A'', ''B'', ''C'']) (''{'' @ ''user1'' @ ''}y'')"
  using PickNode_same_tag [of "''user1''" "AddNode (New 3 None) [''A'', ''B'', ''C'']"]
  by simp

text \<open>
  Claim C5 as stated fails for the empty tag: the braces of \<open>{}x\<close> and \<open>{}y\<close> are
  adjacent, the whole key is hashed, and on the ring of the nodes \<open>A\<close> and \<open>B\<close> with
  two replicas and the default hash the two keys go to different nodes.
\<close>

theorem PickNode_empty_tag_counterexample:
  "\<not> IsEmpty (AddNode (New 2 None) [''A'', ''B'']) \<and>
   PickNode (AddNode (New 2 None) [''A'', ''B'']) (''{'' @ [] @ ''}x'') = Inr ''A'' \<and>
   PickNode (AddNode (New 2 None) [''A'', ''B'']) (''{'' @ [] @ ''}y'') = Inr ''B''"
  by code_simp

section \<open>Properties of the transaction participant\<close>

lemma exec_db_frame:
  "txs (snd (exec_db E c cl s)) = txs s \<and> transactions (snd (exec_db E c cl s)) = transactions s
   \<and> timers (snd (exec_db E c cl s)) = timers s \<and> next_tx (snd (exec_db E c cl s)) = next_tx s"
  by (simp add: exec_db_def split: prod.split)

lemma undo_loop_frame:
  "txs (foldl (\<lambda>st cl. snd (exec_db E (conn (txs st p)) cl st)) s cls) = txs s \<and>
   transactions (foldl (\<lambda>st cl. snd (exec_db E (conn (txs st p)) cl st)) s cls) = transactions s \<and>
   timers (foldl (\<lambda>st cl. snd (exec_db E (conn (txs st p)) cl st)) s cls) = timers s"
  by (induction cls arbitrary: s) (simp_all add: exec_db_frame)

text \<open>
  A rollback ends in the status RolledBack, with the key locks released when it had
  work to do, and never touches the table.
\<close>

lemma rollbackWithLock_releases:
  "status (txs (snd (rollbackWithLock E p s)) p) = rolledBackStatus \<and>
   (status (txs s p) \<noteq> rolledBackStatus \<longrightarrow> \<not> keysLocked (txs (snd (rollbackWithLock E p s)) p)) \<and>
   transactions (snd (rollbackWithLock E p s)) = transactions s"
  by (simp add: rollbackWithLock_def Let_def unLockKeys_def lockKeys_def update_tx_def undo_loop_frame)

text \<open>
  Claim C8. In \<open>rollbackWithLock\<close> the branch that returns the "status changed" error
  is never taken: \<open>tx.status\<close> is compared with the copy \<open>curStatus\<close> read just
  before, so for every environment, transaction and state the error returned is nil.
\<close>

theorem rollbackWithLock_returns_nil: "fst (rollbackWithLock E p s) = None"
  by (simp add: rollbackWithLock_def Let_def)

text \<open>
  Claim C7. Rollback is idempotent on a participant: when the transaction the table
  holds for the id is already RolledBack, \<open>execRollback\<close> returns the integer reply 1,
  passes no command to the database (no undo-log command is executed), and leaves the
  database with its key locks, every transaction record (status and \<open>keysLocked\<close>
  included) and the table as they were; it only schedules the delayed clean-up of the
  record.
\<close>

theorem execRollback_rolled_back:
  assumes "length cl = 2" and "transactions s (cl ! 1) = Some p"
    and "status (txs s p) = rolledBackStatus"
  shows "fst (execRollback E c cl s) = IntReply 1 \<and>
         executed (snd (execRollback E c cl s)) = executed s \<and>
         db (snd (execRollback E c cl s)) = db s \<and>
         txs (snd (execRollback E c cl s)) = txs s \<and>
         transactions (snd (execRollback E c cl s)) = transactions s \<and>
         timers (snd (execRollback E c cl s)) =
           timers s @ [\<lparr> task_delay = waitBeforeCleanTx, task_key = [],
                          task_job = CleanTx (tx_id (txs s p)) \<rparr>]"
  using assms by (simp add: execRollback_def rollbackWithLock_def Delay_def)

theorem execRollback_rolled_back_witness:
  "length [''rollback'', ''1''] = 2 \<and>
   transactions kv_aborted ([''rollback'', ''1''] ! 1) = Some 0 \<and>
   status (txs kv_aborted 0) = rolledBackStatus \<and>
   fst (execRollback kv_env kv_conn [''rollback'', ''1''] kv_aborted) = IntReply 1 \<and>
   executed (snd (execRollback kv_env kv_conn [''rollback'', ''1''] kv_aborted)) = [[''DEL'', ''k'']] \<and>
   db (snd (execRollback kv_env kv_conn [''rollback'', ''1''] kv_aborted)) = db kv_aborted"
proof -
  have a: "length [''rollback'', ''1''] = 2" by simp
  have b: "transactions kv_aborted ([''rollback'', ''1''] ! 1) = Some 0" by code_simp
  have c: "status (txs kv_aborted 0) = rolledBackStatus" by code_simp
  have d: "executed kv_aborted = [[''DEL'', ''k'']]" by code_simp
  show ?thesis
    using execRollback_rolled_back [OF a b c, of kv_env kv_conn] a b c d by simp
qed

text \<open>
  Claim C1 says that a Commit arriving for a transaction that was rolled back, and whose
  record is still in the table, returns the integer reply 0 and executes nothing.
  \<open>execCommit\<close> does not look at the status. After \<open>Prepare 1 SET k v\<close> on an empty
  node and the firing of the abort timer, the record is in the table with status
  RolledBack and its key lock released; \<open>Commit 1\<close> then returns the reply of
  \<open>SET\<close>, the command has been executed (after the undo command \<open>DEL k\<close> of the
  rollback), the key is set, and the status is Committed.
\<close>

theorem execCommit_after_abort_executes:
  "transactions kv_aborted ''1'' = Some 0 \<and>
   status (txs kv_aborted 0) = rolledBackStatus \<and>
   kv_locks (db kv_aborted) = [] \<and>
   kv_data (db kv_aborted) ''k'' = None \<and>
   fst (execCommit kv_env kv_conn [''commit'', ''1''] kv_aborted) = OkReply \<and>
   executed (snd (execCommit kv_env kv_conn [''commit'', ''1''] kv_aborted)) =
     [[''DEL'', ''k''], [''SET'', ''k'', ''v'']] \<and>
   kv_data (db (snd (execCommit kv_env kv_conn [''commit'', ''1''] kv_aborted))) ''k'' = Some ''v'' \<and>
   status (txs (snd (execCommit kv_env kv_conn [''commit'', ''1''] kv_aborted)) 0) = committedStatus"
  by code_simp

lemma prepared_state_facts:
  "transactions (prepared_state E c cl s) (cl ! 1) = Some (next_tx s) \<and>
   status (txs (prepared_state E c cl s) (next_tx s)) = preparedStatus \<and>
   keysLocked (txs (prepared_state E c cl s) (next_tx s)) \<and>
   db (prepared_state E c cl s) =
     RWLocks E (db s) (GetDBIndex c) (fst (GetRelatedKeys E (drop 2 cl)))
       (snd (GetRelatedKeys E (drop 2 cl))) \<and>
   timers (prepared_state E c cl s) =
     timers s @ [\<lparr> task_delay = maxLockTime, task_key = genTaskKey (cl ! 1),
                    task_job = AbortTx (next_tx s) \<rparr>]"
  by (simp add: prepared_state_def prepare_def Let_def lockKeys_def update_tx_def Delay_def
      NewTransaction_def split: prod.split)

lemma prepared_state_record:
  "txs (prepared_state E c cl s) (next_tx s) =
     \<lparr> tx_id = cl ! 1, cmdLine = drop 2 cl, conn = c, dbIndex = GetDBIndex c,
       writeKeys = fst (GetRelatedKeys E (drop 2 cl)),
       readKeys = snd (GetRelatedKeys E (drop 2 cl)),
       keysLocked = True,
       undoLog = GetUndoLogs E
                   (RWLocks E (db s) (GetDBIndex c) (fst (GetRelatedKeys E (drop 2 cl)))
                      (snd (GetRelatedKeys E (drop 2 cl))))
                   (GetDBIndex c) (drop 2 cl),
       status = preparedStatus \<rparr>"
  by (simp add: prepared_state_def prepare_def Let_def lockKeys_def update_tx_def Delay_def
      NewTransaction_def split: prod.split)

lemma execPrepare_calls_hook:
  assumes "3 \<le> length cl" and "prepareFuncMap E (ToLower E (cl ! 2)) = Some hook"
  shows "execPrepare E c cl s = hook (prepared_state E c cl s) c (drop 2 cl)"
  using assms
  by (simp add: execPrepare_def prepared_state_def Let_def prepare_def split: prod.split)

text \<open>A run of \<open>ExecWithLock\<close> calls changes the database and the record of commands only.\<close>

lemma exec_db_db_only: "db_only s (snd (exec_db E c cl s))"
  by (simp add: db_only_def exec_db_frame)

lemma db_only_trans: "db_only s s1 \<Longrightarrow> db_only s1 s2 \<Longrightarrow> db_only s s2"
  by (simp add: db_only_def)

lemma exec_db_run_db_only: "db_only s (foldl (\<lambda>st cl. snd (exec_db E c cl st)) s cls)"
proof (induction cls arbitrary: s)
  case Nil
  show ?case by (simp add: db_only_def)
next
  case (Cons cl cls)
  from exec_db_db_only [of s E c cl] Cons.IH [of "snd (exec_db E c cl s)"]
  show ?case by (auto intro: db_only_trans)
qed

lemma kv_prepareSetNX_db_only: "db_only s (snd (kv_prepareSetNX s c cl))"
  by (cases "(s, c, cl)" rule: kv_prepareSetNX.cases)
     (auto simp: db_only_def Let_def split: prod.split)

text \<open>
  The loop over the undo log in \<open>rollbackWithLock\<close> passes each command of the log to the
  database, on the connection of the transaction.
\<close>

lemma undo_loop_db:
  "db (foldl (\<lambda>st cl. snd (exec_db E (conn (txs st p)) cl st)) s cls) =
     exec_all E (conn (txs s p)) cls (db s) \<and>
   executed (foldl (\<lambda>st cl. snd (exec_db E (conn (txs st p)) cl st)) s cls) = executed s @ cls"
proof (induction cls arbitrary: s)
  case Nil
  show ?case by (simp add: exec_all_def)
next
  case (Cons cl cls)
  let ?s1 = "snd (exec_db E (conn (txs s p)) cl s)"
  have t: "txs ?s1 = txs s" by (simp add: exec_db_frame)
  have d: "db ?s1 = snd (ExecWithLock E (db s) (conn (txs s p)) cl)"
    and x: "executed ?s1 = executed s @ [cl]"
    by (simp_all add: exec_db_def split: prod.split)
  from Cons.IH [of ?s1] show ?case by (simp add: t d x exec_all_def)
qed

text \<open>
  A rollback of a transaction that is Prepared with its keys locked: the undo log goes
  through the database, then the keys are unlocked in the database (\<open>RWUnLocks\<close>) and in
  the record, and the record is RolledBack; the table and the timers are as they were.
\<close>

lemma rollbackWithLock_prepared:
  assumes "status (txs s p) = preparedStatus" and "keysLocked (txs s p)"
  shows "txs (snd (rollbackWithLock E p s)) =
           (txs s)(p := (txs s p)\<lparr> keysLocked := False, status := rolledBackStatus \<rparr>) \<and>
         db (snd (rollbackWithLock E p s)) =
           RWUnLocks E (exec_all E (conn (txs s p)) (undoLog (txs s p)) (db s))
             (dbIndex (txs s p)) (writeKeys (txs s p)) (readKeys (txs s p)) \<and>
         executed (snd (rollbackWithLock E p s)) = executed s @ undoLog (txs s p) \<and>
         transactions (snd (rollbackWithLock E p s)) = transactions s \<and>
         timers (snd (rollbackWithLock E p s)) = timers s"
proof -
  let ?loop = "foldl (\<lambda>st cl. snd (exec_db E (conn (txs st p)) cl st)) s (undoLog (txs s p))"
  have lk: "lockKeys E p s = s" using assms(2) by (simp add: lockKeys_def)
  have t: "txs ?loop = txs s" "transactions ?loop = transactions s" "timers ?loop = timers s"
    by (simp_all add: undo_loop_frame)
  have d: "db ?loop = exec_all E (conn (txs s p)) (undoLog (txs s p)) (db s)"
    and x: "executed ?loop = executed s @ undoLog (txs s p)"
    by (simp_all add: undo_loop_db)
  have r: "snd (rollbackWithLock E p s) =
      update_tx p (\<lambda>t. t\<lparr> status := rolledBackStatus \<rparr>) (unLockKeys E p ?loop)"
    using assms(1) by (simp add: rollbackWithLock_def Let_def lk)
  show ?thesis
    unfolding r using assms(2) t d x
    by (simp add: unLockKeys_def update_tx_def Let_def fun_eq_iff)
qed

text \<open>
  Claim C10. The prepare hooks are registered from outside the package; a hook may work
  on the database (as one that asks it through \<open>ExecWithLock\<close> does) and leaves the
  transaction records, the table and the timers alone. When the hook registered for the
  command rejects a Prepare, that is, returns an error reply, \<open>execPrepare\<close> returns
  that error reply and undoes nothing of the local prepare: it leaves the state the hook
  left. The hook ran on the database with the command's keys locked (\<open>RWLocks\<close>); the
  table holds the new transaction's record under the id, the record's status is
  Prepared, \<open>keysLocked\<close> is set, and the abort timer is scheduled. The locks go with
  the abort timer or a later Rollback of the id, whichever comes: either passes the undo
  log to the database, releases the keys in the database (\<open>RWUnLocks\<close> on the
  transaction's keys) and leaves the record RolledBack with \<open>keysLocked\<close> cleared;
  Rollback returns the integer reply 1.
\<close>

theorem execPrepare_hook_rejects:
  assumes "3 \<le> length cl"
    and "prepareFuncMap E (ToLower E (cl ! 2)) = Some hook"
    and "hook (prepared_state E c cl s) c (drop 2 cl) = (ErrReply e, s')"
    and "db_only (prepared_state E c cl s) s'"
    and "length rb = 2" and "rb ! 1 = cl ! 1"
  shows "execPrepare E c cl s = (ErrReply e, s') \<and>
         db (prepared_state E c cl s) =
           RWLocks E (db s) (GetDBIndex c) (fst (GetRelatedKeys E (drop 2 cl)))
             (snd (GetRelatedKeys E (drop 2 cl))) \<and>
         transactions s' (cl ! 1) = Some (next_tx s) \<and>
         status (txs s' (next_tx s)) = preparedStatus \<and>
         keysLocked (txs s' (next_tx s)) \<and>
         timers s' =
           timers s @ [\<lparr> task_delay = maxLockTime, task_key = genTaskKey (cl ! 1),
                          task_job = AbortTx (next_tx s) \<rparr>] \<and>
         status (txs (run_job E (AbortTx (next_tx s)) s') (next_tx s)) = rolledBackStatus \<and>
         \<not> keysLocked (txs (run_job E (AbortTx (next_tx s)) s') (next_tx s)) \<and>
         db (run_job E (AbortTx (next_tx s)) s') =
           RWUnLocks E
             (exec_all E c
                (GetUndoLogs E
                   (RWLocks E (db s) (GetDBIndex c) (fst (GetRelatedKeys E (drop 2 cl)))
                      (snd (GetRelatedKeys E (drop 2 cl))))
                   (GetDBIndex c) (drop 2 cl))
                (db s'))
             (GetDBIndex c) (fst (GetRelatedKeys E (drop 2 cl)))
             (snd (GetRelatedKeys E (drop 2 cl))) \<and>
         fst (execRollback E c2 rb s') = IntReply 1 \<and>
         status (txs (snd (execRollback E c2 rb s')) (next_tx s)) = rolledBackStatus \<and>
         \<not> keysLocked (txs (snd (execRollback E c2 rb s')) (next_tx s)) \<and>
         db (snd (execRollback E c2 rb s')) = db (run_job E (AbortTx (next_tx s)) s') \<and>
         executed (snd (execRollback E c2 rb s')) =
           executed s' @
           GetUndoLogs E
             (RWLocks E (db s) (GetDBIndex c) (fst (GetRelatedKeys E (drop 2 cl)))
                (snd (GetRelatedKeys E (drop 2 cl))))
             (GetDBIndex c) (drop 2 cl)"
proof -
  let ?p = "next_tx s" and ?sp = "prepared_state E c cl s"
  have run: "execPrepare E c cl s = (ErrReply e, s')"
    using execPrepare_calls_hook [OF assms(1,2)] assms(3) by simp
  have same: "txs s' = txs ?sp" "transactions s' = transactions ?sp" "timers s' = timers ?sp"
    using assms(4) by (simp_all add: db_only_def)
  note rec = prepared_state_record [of E c cl s]
  note facts = prepared_state_facts [of E c cl s]
  have st: "status (txs s' ?p) = preparedStatus" and kl: "keysLocked (txs s' ?p)"
    using facts by (simp_all add: same)
  define s2 where "s2 = snd (rollbackWithLock E ?p s')"
  have "fst (rollbackWithLock E ?p s') = None"
    by (simp add: rollbackWithLock_def Let_def)
  then have r2: "rollbackWithLock E ?p s' = (None, s2)"
    unfolding s2_def by (metis prod.collapse)
  have rb: "txs s2 = (txs s')(?p := (txs s' ?p)\<lparr> keysLocked := False, status := rolledBackStatus \<rparr>)"
    "db s2 = RWUnLocks E (exec_all E (conn (txs s' ?p)) (undoLog (txs s' ?p)) (db s'))
               (dbIndex (txs s' ?p)) (writeKeys (txs s' ?p)) (readKeys (txs s' ?p))"
    "executed s2 = executed s' @ undoLog (txs s' ?p)"
    using rollbackWithLock_prepared [OF st kl, of E] by (simp_all add: r2)
  have fire: "run_job E (AbortTx ?p) s' = s2"
    using st by (simp add: r2)
  have tab: "transactions s' (rb ! 1) = Some ?p"
    unfolding assms(6) same using facts by simp
  have roll: "execRollback E c2 rb s' =
      (IntReply 1, Delay waitBeforeCleanTx [] (CleanTx (tx_id (txs s2 ?p))) s2)"
    using assms(5) tab by (simp add: execRollback_def r2)
  show ?thesis
    unfolding run fire roll using facts rb by (simp add: same rec Delay_def)
qed

theorem execPrepare_hook_rejects_witness:
  "3 \<le> length [''prepare'', ''7'', ''SETNX'', ''k'', ''v''] \<and>
   length [''rollback'', ''7''] = 2 \<and>
   fst (execPrepare kv_env kv_conn [''prepare'', ''7'', ''SETNX'', ''k'', ''v'']
          (kv_node [''k'' \<mapsto> ''old''])) = ErrReply ''ERR key exists'' \<and>
   executed (snd (execPrepare kv_env kv_conn [''prepare'', ''7'', ''SETNX'', ''k'', ''v'']
          (kv_node [''k'' \<mapsto> ''old'']))) = [[''EXISTS'', ''k'']] \<and>
   transactions (snd (execPrepare kv_env kv_conn [''prepare'', ''7'', ''SETNX'', ''k'', ''v'']
          (kv_node [''k'' \<mapsto> ''old'']))) ''7'' = Some 0 \<and>
   status (txs (snd (execPrepare kv_env kv_conn [''prepare'', ''7'', ''SETNX'', ''k'', ''v'']
          (kv_node [''k'' \<mapsto> ''old'']))) 0) = preparedStatus \<and>
   keysLocked (txs (snd (execPrepare kv_env kv_conn [''prepare'', ''7'', ''SETNX'', ''k'', ''v'']
          (kv_node [''k'' \<mapsto> ''old'']))) 0) \<and>
   kv_locks (db (snd (execPrepare kv_env kv_conn [''prepare'', ''7'', ''SETNX'', ''k'', ''v'']
          (kv_node [''k'' \<mapsto> ''old''])))) = [''k''] \<and>
   kv_locks (db (run_job kv_env (AbortTx 0)
          (snd (execPrepare kv_env kv_conn [''prepare'', ''7'', ''SETNX'', ''k'', ''v'']
             (kv_node [''k'' \<mapsto> ''old'']))))) = [] \<and>
   fst (execRollback kv_env kv_conn [''rollback'', ''7'']
          (snd (execPrepare kv_env kv_conn [''prepare'', ''7'', ''SETNX'', ''k'', ''v'']
             (kv_node [''k'' \<mapsto> ''old''])))) = IntReply 1 \<and>
   kv_locks (db (snd (execRollback kv_env kv_conn [''rollback'', ''7'']
          (snd (execPrepare kv_env kv_conn [''prepare'', ''7'', ''SETNX'', ''k'', ''v'']
             (kv_node [''k'' \<mapsto> ''old'']))))) ) = []"
proof -
  let ?cl = "[''prepare'', ''7'', ''SETNX'', ''k'', ''v'']"
  let ?rb = "[''rollback'', ''7'']"
  let ?s = "kv_node [''k'' \<mapsto> ''old'']"
  let ?sp = "prepared_state kv_env kv_conn ?cl ?s"
  define s' where "s' = snd (kv_prepareSetNX ?sp kv_conn (drop 2 ?cl))"
  have a: "3 \<le> length ?cl" by simp
  have lw: "ascii_lower ''SETNX'' = ''setnx''" by code_simp
  have b: "prepareFuncMap kv_env (ToLower kv_env (?cl ! 2)) = Some kv_prepareSetNX"
    by (simp add: kv_env_def lw)
  have h: "fst (kv_prepareSetNX ?sp kv_conn (drop 2 ?cl)) = ErrReply ''ERR key exists''"
    by code_simp
  have c: "kv_prepareSetNX ?sp kv_conn (drop 2 ?cl) = (ErrReply ''ERR key exists'', s')"
    unfolding s'_def using h by (metis prod.collapse)
  have d: "db_only ?sp s'" unfolding s'_def by (rule kv_prepareSetNX_db_only)
  have f: "length ?rb = 2" and g: "?rb ! 1 = ?cl ! 1" by simp_all
  have n: "next_tx ?s = 0" by (simp add: kv_node_def)
  have x: "executed s' = [[''EXISTS'', ''k'']]" unfolding s'_def by code_simp
  have l1: "kv_locks (db s') = [''k'']" unfolding s'_def by code_simp
  have l2: "kv_locks (db (run_job kv_env (AbortTx 0) s')) = []" unfolding s'_def by code_simp
  from execPrepare_hook_rejects [OF a b c d f g, of kv_conn] n x l1 l2
  show ?thesis by simp
qed

section \<open>Properties of the AOF rewrite\<close>

subsection \<open>Writes at the end of the temporary file\<close>

lemma grown_refl: "at_end fs fd \<Longrightarrow> grown fd [] fs fs"
  by (simp add: grown_def)

lemma grown_trans:
  assumes "grown fd a fs fs1" and "grown fd b fs1 fs2"
  shows "grown fd (a @ b) fs fs2"
proof -
  let ?i = "of_ino (ofiles fs fd)"
  have i1: "of_ino (ofiles fs1 fd) = ?i" using assms(1) by (simp add: grown_def)
  have n1: "inodes fs1 = (inodes fs)(?i := inodes fs ?i @ a)"
    using assms(1) by (simp add: grown_def)
  have n2: "inodes fs2 = (inodes fs1)(?i := inodes fs1 ?i @ b)"
    using assms(2) i1 by (simp add: grown_def)
  have n: "inodes fs2 = (inodes fs)(?i := inodes fs ?i @ a @ b)"
    unfolding n2 n1 by simp
  have o1: "ofiles fs1 = (ofiles fs)(fd := ofiles fs1 fd)"
    using assms(1) by (simp add: grown_def)
  have o2: "ofiles fs2 = (ofiles fs1)(fd := ofiles fs2 fd)"
    using assms(2) by (simp add: grown_def)
  have o: "ofiles fs2 = (ofiles fs)(fd := ofiles fs2 fd)"
    by (subst o2, subst o1) simp
  show ?thesis
    unfolding grown_def using assms n o i1 by (simp add: grown_def)
qed

lemma put_bytes_grown:
  assumes "at_end fs fd"
  shows "grown fd data fs (put_bytes fd data fs)"
  using assms
  by (auto simp: grown_def at_end_def put_bytes_def Let_def write_at_def)

lemma file_Write_grown:
  assumes "faults fs = []" and "at_end fs fd"
  shows "fst (file_Write fd data fs) = Inr (length data) \<and>
         grown fd data fs (snd (file_Write fd data fs))"
proof -
  have "file_Write fd data fs = (Inr (length data), put_bytes fd data fs)"
    using assms by (simp add: file_Write_def next_outcome_def through_def at_end_def Let_def)
  with put_bytes_grown [OF assms(2)] show ?thesis by simp
qed

lemma grown_keeps:
  "grown fd data fs fs' \<Longrightarrow> faults fs' = faults fs \<and> at_end fs' fd"
  by (simp add: grown_def)

lemma write_entry_grown:
  assumes "faults fs = []" and "at_end fs fd"
  shows "grown fd (entry_frames E e) fs (write_entry E fd fs e)"
proof -
  obtain key entity expiration where e: "e = (key, entity, expiration)"
    by (cases e) auto
  let ?a = "case EntityToCmd E key entity of None \<Rightarrow> [] | Some cmd \<Rightarrow> ToBytes E cmd"
  let ?b = "case expiration of None \<Rightarrow> []
            | Some t \<Rightarrow> (case MakeExpireCmd E key t of None \<Rightarrow> [] | Some cmd \<Rightarrow> ToBytes E cmd)"
  define fs1 where "fs1 = (case EntityToCmd E key entity of None \<Rightarrow> fs
              | Some cmd \<Rightarrow> snd (file_Write fd (ToBytes E cmd) fs))"
  have we: "write_entry E fd fs e =
      (case expiration of None \<Rightarrow> fs1
       | Some t \<Rightarrow> (case MakeExpireCmd E key t of None \<Rightarrow> fs1
                   | Some cmd \<Rightarrow> snd (file_Write fd (ToBytes E cmd) fs1)))"
    unfolding fs1_def by (simp add: e Let_def)
  have g1: "grown fd ?a fs fs1"
    unfolding fs1_def using file_Write_grown [OF assms] grown_refl [OF assms(2)]
    by (simp split: option.split)
  have k1: "faults fs1 = []" "at_end fs1 fd"
    using grown_keeps [OF g1] assms(1) by simp_all
  have g2: "grown fd ?b fs1 (write_entry E fd fs e)"
    unfolding we using file_Write_grown [OF k1] grown_refl [OF k1(2)]
    by (simp split: option.split)
  from grown_trans [OF g1 g2] show ?thesis by (simp add: e)
qed

lemma foldl_write_entry_grown:
  assumes "faults fs = []" and "at_end fs fd"
  shows "grown fd (concat (map (entry_frames E) es)) fs (foldl (write_entry E fd) fs es)"
  using assms
proof (induction es arbitrary: fs)
  case Nil
  then show ?case by (simp add: grown_refl)
next
  case (Cons e es)
  have g1: "grown fd (entry_frames E e) fs (write_entry E fd fs e)"
    by (rule write_entry_grown [OF Cons.prems])
  have k: "faults (write_entry E fd fs e) = []" "at_end (write_entry E fd fs e) fd"
    using grown_keeps [OF g1] Cons.prems(1) by simp_all
  from grown_trans [OF g1 Cons.IH [OF k]] show ?case by simp
qed

lemma db_indices_step: "i < n \<Longrightarrow> db_indices i n = i # db_indices (i + 1) n"
proof -
  assume lt: "i < n"
  then have "nat (n - i) = Suc (nat (n - (i + 1)))" by simp
  then have "[0..<nat (n - i)] = 0 # map Suc [0..<nat (n - (i + 1))]"
    by (simp add: upt_conv_Cons map_Suc_upt del: upt_Suc)
  then show ?thesis by (simp add: db_indices_def comp_def)
qed

lemma db_indices_done: "\<not> i < n \<Longrightarrow> db_indices i n = []"
  by (simp add: db_indices_def)

lemma rewrite_dbs_grown:
  assumes "faults fs = []" and "at_end fs fd"
  shows "fst (rewrite_dbs E sdb fd i fs) = None \<and>
         grown fd (concat (map (db_frames E sdb) (db_indices i (Databases E)))) fs
           (snd (rewrite_dbs E sdb fd i fs))"
  using assms
proof (induction E sdb fd i fs rule: rewrite_dbs.induct)
  case (1 E sdb tmp i fs)
  show ?case
  proof (cases "i < Databases E")
    case False
    then show ?thesis
      using "1.prems" by (subst (1 2) rewrite_dbs.simps) (simp add: db_indices_done grown_refl)
  next
    case True
    let ?w = "file_Write tmp (select_frame E i) fs"
    let ?fs2 = "foldl (write_entry E tmp) (snd ?w) (sdb i)"
    have w: "fst ?w = Inr (length (select_frame E i))" "grown tmp (select_frame E i) fs (snd ?w)"
      using file_Write_grown [OF "1.prems"] by simp_all
    have k1: "faults (snd ?w) = []" "at_end (snd ?w) tmp"
      using grown_keeps [OF w(2)] "1.prems"(1) by simp_all
    have g2: "grown tmp (concat (map (entry_frames E) (sdb i))) (snd ?w) ?fs2"
      by (rule foldl_write_entry_grown [OF k1])
    have g12: "grown tmp (db_frames E sdb i) fs ?fs2"
      using grown_trans [OF w(2) g2] by (simp add: db_frames_def)
    have k2: "faults ?fs2 = []" "at_end ?fs2 tmp"
      using grown_keeps [OF g2] k1(1) by simp_all
    have weq: "?w = (Inr (length (select_frame E i)), snd ?w)"
      using w(1) by (cases ?w) simp
    have step: "rewrite_dbs E sdb tmp i fs = rewrite_dbs E sdb tmp (i + 1) ?fs2"
      using True by (subst rewrite_dbs.simps, subst weq) simp
    have ih: "fst (rewrite_dbs E sdb tmp (i + 1) ?fs2) = None \<and>
              grown tmp (concat (map (db_frames E sdb) (db_indices (i + 1) (Databases E)))) ?fs2
                (snd (rewrite_dbs E sdb tmp (i + 1) ?fs2))"
      using "1.IH" [OF True weq [symmetric] refl k2] .
    show ?thesis
      unfolding step using ih grown_trans [OF g12 conjunct2 [OF ih]]
      by (simp add: db_indices_step [OF True])
  qed
qed

text \<open>
  Claim C6, as the code has it. When no I/O call fails and the handle of the temporary
  file writes at the end of its file, \<open>DoRewrite\<close> returns nil and has added to the
  temporary file exactly \<open>dump_frames\<close> of the scratch database, changing nothing else:
  for each database index from 0 below \<open>Databases\<close>, in order, one SELECT frame, then
  for each entry \<open>ForEach\<close> visits the command of \<open>EntityToCmd\<close>, when there is one,
  followed by the command of \<open>MakeExpireCmd\<close>, when the entry has an expiration. An
  entry whose entity has no command gets no recreating command, and still its
  expiration command.
\<close>

theorem DoRewrite_emits_dump:
  assumes "faults fs = []" and "at_end fs (tmpFile ctx)"
  shows "fst (DoRewrite E handler ctx fs) = None \<and>
         grown (tmpFile ctx)
           (dump_frames E (LoadAof E fs (aofFilename handler) (fileSize ctx)))
           fs (snd (DoRewrite E handler ctx fs))"
  using rewrite_dbs_grown [OF assms, of E "LoadAof E fs (aofFilename handler) (fileSize ctx)" 0]
  by (simp add: DoRewrite_def dump_frames_def Let_def)

theorem DoRewrite_emits_dump_witness:
  "faults demo_started = [] \<and> at_end demo_started (tmpFile demo_ctx) \<and>
   fst (DoRewrite demo_aof demo_handler demo_ctx demo_started) = None \<and>
   grown (tmpFile demo_ctx) (dump_frames demo_aof demo_scratch) demo_started
     (snd (DoRewrite demo_aof demo_handler demo_ctx demo_started))"
proof -
  have a: "faults demo_started = []" by code_simp
  have b: "at_end demo_started (tmpFile demo_ctx)" by code_simp
  have l: "LoadAof demo_aof demo_started (aofFilename demo_handler) (fileSize demo_ctx) = demo_scratch"
    by (simp add: demo_aof_def)
  show ?thesis
    using DoRewrite_emits_dump [OF a b, of demo_aof demo_handler] a b unfolding l by simp
qed

text \<open>
  Claim C6 as stated fails on its last part, that a key whose entity has no command is
  skipped entirely. In the scratch database of the small rewrite the key \<open>o\<close> holds an
  entity \<open>EntityToCmd\<close> returns nil for, and expires at 200: \<open>DoRewrite\<close> writes no
  command recreating it and still writes \<open>PEXPIREAT o 200\<close>.
\<close>

theorem DoRewrite_expire_without_entity_counterexample:
  "demo_scratch 0 = [(''k'', StringEntity ''v'', Some 100), (''o'', OtherEntity, Some 200)] \<and>
   EntityToCmd demo_aof ''o'' OtherEntity = None \<and>
   fst (DoRewrite demo_aof demo_handler demo_ctx demo_started) = None \<and>
   file_content (snd (DoRewrite demo_aof demo_handler demo_ctx demo_started)) ''/tmp/1.aof'' =
     Some (multi_bulk [''SELECT'', ''0''] @ multi_bulk [''SET'', ''k'', ''v''] @
           multi_bulk [''PEXPIREAT'', ''k'', ''100''] @ multi_bulk [''PEXPIREAT'', ''o'', ''200''] @
           multi_bulk [''SELECT'', ''1''])"
  by code_simp

subsection \<open>What an aborted rewrite leaves alone\<close>

lemma touched_refl: "only_tmp_touched tmp n fs fs"
  by (simp add: only_tmp_touched_def)

lemma touched_trans:
  assumes "only_tmp_touched tmp n fs fs1" and "only_tmp_touched tmp n fs1 fs2"
  shows "only_tmp_touched tmp n fs fs2"
  using assms unfolding only_tmp_touched_def by (metis order_trans)

lemma touched_next_fd: "only_tmp_touched tmp n fs fs' \<Longrightarrow> next_fd fs \<le> next_fd fs'"
  by (simp add: only_tmp_touched_def)

lemma next_outcome_frame:
  "inodes (snd (next_outcome fs)) = inodes fs \<and> dir (snd (next_outcome fs)) = dir fs \<and>
   ofiles (snd (next_outcome fs)) = ofiles fs \<and> next_fd (snd (next_outcome fs)) = next_fd fs \<and>
   next_ino (snd (next_outcome fs)) = next_ino fs \<and> tmp_names (snd (next_outcome fs)) = tmp_names fs"
  by (simp add: next_outcome_def split: list.split)

lemma touched_outcome: "only_tmp_touched tmp n fs (snd (next_outcome fs))"
  by (simp add: only_tmp_touched_def next_outcome_frame)

lemma touched_put_bytes: "only_tmp_touched tmp n fs (put_bytes tmp data fs)"
  by (simp add: only_tmp_touched_def put_bytes_def Let_def)

lemma touched_Write: "only_tmp_touched tmp n fs (snd (file_Write tmp data fs))"
proof -
  obtain out fs1 where o: "next_outcome fs = (out, fs1)" by force
  have t1: "only_tmp_touched tmp n fs fs1" using touched_outcome [of tmp n fs] o by simp
  have "only_tmp_touched tmp n fs1 (snd (file_Write tmp data fs))"
    using touched_put_bytes [of tmp n fs1] touched_refl [of tmp n fs1]
    by (simp add: file_Write_def o Let_def split: io_outcome.split)
  with t1 show ?thesis by (rule touched_trans)
qed

lemma touched_Open:
  assumes "tmp < next_fd fs" and "n \<le> next_fd fs"
  shows "only_tmp_touched tmp n fs (snd (os_Open name fs)) \<and>
         (\<forall>src. fst (os_Open name fs) = Inr src \<longrightarrow> src = next_fd fs)"
proof -
  obtain out fs1 where o: "next_outcome fs = (out, fs1)" by force
  have f1: "inodes fs1 = inodes fs" "dir fs1 = dir fs" "ofiles fs1 = ofiles fs"
    "next_fd fs1 = next_fd fs"
    using next_outcome_frame [of fs] o by simp_all
  show ?thesis
    using assms f1
    by (auto simp: os_Open_def o new_handle_def only_tmp_touched_def Let_def
        split: io_outcome.split option.split)
qed

lemma touched_Seek:
  assumes "src \<noteq> tmp" and "n \<le> src"
  shows "only_tmp_touched tmp n fs (snd (file_Seek src off fs))"
proof -
  obtain out fs1 where o: "next_outcome fs = (out, fs1)" by force
  have f1: "inodes fs1 = inodes fs" "dir fs1 = dir fs" "ofiles fs1 = ofiles fs"
    "next_fd fs1 = next_fd fs"
    using next_outcome_frame [of fs] o by simp_all
  show ?thesis
    using assms f1
    by (auto simp: file_Seek_def o only_tmp_touched_def Let_def split: io_outcome.split)
qed

lemma touched_Close:
  assumes "src \<noteq> tmp" and "n \<le> src"
  shows "only_tmp_touched tmp n fs (snd (file_Close src fs))"
proof -
  obtain out fs1 where o: "next_outcome fs = (out, fs1)" by force
  have f1: "inodes fs1 = inodes fs" "dir fs1 = dir fs" "ofiles fs1 = ofiles fs"
    "next_fd fs1 = next_fd fs"
    using next_outcome_frame [of fs] o by simp_all
  show ?thesis
    using assms f1
    by (auto simp: file_Close_def o only_tmp_touched_def Let_def split: io_outcome.split)
qed

lemma touched_Copy:
  assumes "src \<noteq> tmp" and "n \<le> src"
  shows "only_tmp_touched tmp n fs (snd (io_Copy tmp src fs))"
proof -
  obtain out fs1 where o: "next_outcome fs = (out, fs1)" by force
  have t1: "only_tmp_touched tmp n fs fs1" using touched_outcome [of tmp n fs] o by simp
  define fs2 where "fs2 = fs1\<lparr> ofiles := (ofiles fs1)(src := (ofiles fs1 src)
      \<lparr> of_pos := of_pos (ofiles fs1 src) +
          length (through out (drop (of_pos (ofiles fs1 src)) (inodes fs1 (of_ino (ofiles fs1 src))))) \<rparr>) \<rparr>"
  have t2: "only_tmp_touched tmp n fs1 fs2"
    using assms by (simp add: fs2_def only_tmp_touched_def)
  have "snd (io_Copy tmp src fs) = fs1 \<or>
        (\<exists>data. snd (io_Copy tmp src fs) = put_bytes tmp data fs2)"
    by (auto simp: io_Copy_def o Let_def fs2_def split: io_outcome.split)
  then show ?thesis
  proof
    assume "snd (io_Copy tmp src fs) = fs1"
    with t1 show ?thesis by simp
  next
    assume "\<exists>data. snd (io_Copy tmp src fs) = put_bytes tmp data fs2"
    then obtain data where d: "snd (io_Copy tmp src fs) = put_bytes tmp data fs2" ..
    have "only_tmp_touched tmp n fs2 (put_bytes tmp data fs2)" by (rule touched_put_bytes)
    with t1 t2 show ?thesis unfolding d by (blast intro: touched_trans)
  qed
qed

lemma touched_write_entry: "only_tmp_touched tmp n fs (write_entry E tmp fs e)"
proof -
  obtain key entity expiration where e: "e = (key, entity, expiration)"
    by (cases e) auto
  define fs1 where "fs1 = (case EntityToCmd E key entity of None \<Rightarrow> fs
              | Some cmd \<Rightarrow> snd (file_Write tmp (ToBytes E cmd) fs))"
  have we: "write_entry E tmp fs e =
      (case expiration of None \<Rightarrow> fs1
       | Some t \<Rightarrow> (case MakeExpireCmd E key t of None \<Rightarrow> fs1
                   | Some cmd \<Rightarrow> snd (file_Write tmp (ToBytes E cmd) fs1)))"
    unfolding fs1_def by (simp add: e Let_def)
  have t1: "only_tmp_touched tmp n fs fs1"
    unfolding fs1_def by (simp add: touched_refl touched_Write split: option.split)
  have t2: "only_tmp_touched tmp n fs1 (write_entry E tmp fs e)"
    unfolding we by (simp add: touched_refl touched_Write split: option.split)
  from t1 t2 show ?thesis by (rule touched_trans)
qed

lemma touched_entries: "only_tmp_touched tmp n fs (foldl (write_entry E tmp) fs es)"
proof (induction es arbitrary: fs)
  case Nil
  show ?case by (simp add: touched_refl)
next
  case (Cons e es)
  from touched_write_entry [of tmp n fs E e] Cons.IH [of "write_entry E tmp fs e"]
  show ?case by (simp add: touched_trans)
qed

lemma touched_rewrite_dbs: "only_tmp_touched tmp n fs (snd (rewrite_dbs E sdb tmp i fs))"
proof (induction E sdb tmp i fs rule: rewrite_dbs.induct)
  case (1 E sdb tmp i fs)
  show ?case
  proof (cases "i < Databases E")
    case False
    then show ?thesis by (subst rewrite_dbs.simps) (simp add: touched_refl)
  next
    case True
    obtain r fs1 where w: "file_Write tmp (select_frame E i) fs = (r, fs1)" by force
    have t1: "only_tmp_touched tmp n fs fs1"
      using touched_Write [of tmp n fs "select_frame E i"] w by simp
    show ?thesis
    proof (cases r)
      case (Inl err)
      with True w t1 show ?thesis by (subst rewrite_dbs.simps) simp
    next
      case (Inr k)
      let ?fs2 = "foldl (write_entry E tmp) fs1 (sdb i)"
      have t2: "only_tmp_touched tmp n fs1 ?fs2" by (rule touched_entries)
      have ih: "only_tmp_touched tmp n ?fs2 (snd (rewrite_dbs E sdb tmp (i + 1) ?fs2))"
        using "1.IH" [OF True w [symmetric] Inr] by simp
      have "rewrite_dbs E sdb tmp i fs = rewrite_dbs E sdb tmp (i + 1) ?fs2"
        using True w Inr by (subst rewrite_dbs.simps) simp
      with t1 t2 ih show ?thesis by (metis touched_trans)
    qed
  qed
qed

lemma touched_DoRewrite:
  "only_tmp_touched (tmpFile ctx) n fs (snd (DoRewrite E handler ctx fs))"
  by (simp add: DoRewrite_def Let_def touched_rewrite_dbs)

lemma touched_FinishRewrite:
  assumes tmp: "tmpFile ctx < next_fd fs"
    and ab: "fst (FinishRewrite E handler ctx fs) = Aborted msg"
  shows "fst (snd (FinishRewrite E handler ctx fs)) = handler \<and>
         only_tmp_touched (tmpFile ctx) (next_fd fs) fs (snd (snd (FinishRewrite E handler ctx fs)))"
proof -
  let ?tmp = "tmpFile ctx" and ?n = "next_fd fs"
  obtain r1 fs1 where e1: "os_Open (aofFilename handler) fs = (r1, fs1)" by force
  have t1: "only_tmp_touched ?tmp ?n fs fs1"
    using touched_Open [OF tmp order_refl, of "aofFilename handler"] e1 by simp
  show ?thesis
  proof (cases r1)
    case (Inl err)
    with e1 t1 show ?thesis by (simp add: FinishRewrite_def)
  next
    case src: (Inr src)
    have s: "src = ?n"
      using touched_Open [OF tmp order_refl, of "aofFilename handler"] e1 src by simp
    have sn: "src \<noteq> ?tmp" "?n \<le> src" using s tmp by simp_all
    obtain r2 fs2 where e2: "file_Seek src (fileSize ctx) fs1 = (r2, fs2)" by force
    have t2: "only_tmp_touched ?tmp ?n fs fs2"
      using touched_Seek [OF sn, of fs1 "fileSize ctx"] e2 t1 by (auto intro: touched_trans)
    show ?thesis
    proof (cases r2)
      case (Inl err)
      have "only_tmp_touched ?tmp ?n fs (snd (file_Close src fs2))"
        using t2 touched_Close [OF sn, of fs2] by (rule touched_trans)
      with e1 src e2 Inl show ?thesis by (simp add: FinishRewrite_def)
    next
      case off: (Inr off)
      obtain r3 fs3 where e3:
        "file_Write ?tmp (select_frame E (dbIdx ctx)) fs2 = (r3, fs3)" by force
      have t3: "only_tmp_touched ?tmp ?n fs fs3"
        using touched_Write [of ?tmp ?n fs2 "select_frame E (dbIdx ctx)"] e3 t2
        by (auto intro: touched_trans)
      show ?thesis
      proof (cases r3)
        case (Inl err)
        have "only_tmp_touched ?tmp ?n fs (snd (file_Close src fs3))"
          using t3 touched_Close [OF sn, of fs3] by (rule touched_trans)
        with e1 src e2 off e3 Inl show ?thesis by (simp add: FinishRewrite_def)
      next
        case w: (Inr k)
        obtain r4 fs4 where e4: "io_Copy ?tmp src fs3 = (r4, fs4)" by force
        have t4: "only_tmp_touched ?tmp ?n fs fs4"
          using touched_Copy [OF sn, of fs3] e4 t3 by (auto intro: touched_trans)
        show ?thesis
        proof (cases r4)
          case (Inl err)
          have "only_tmp_touched ?tmp ?n fs (snd (file_Close src fs4))"
            using t4 touched_Close [OF sn, of fs4] by (rule touched_trans)
          with e1 src e2 off e3 w e4 Inl show ?thesis by (simp add: FinishRewrite_def)
        next
          case (Inr k')
          have "\<forall>m. fst (FinishRewrite E handler ctx fs) \<noteq> Aborted m"
            using e1 src e2 off e3 w e4 Inr
            by (simp add: FinishRewrite_def Let_def split: prod.split sum.split)
          with ab show ?thesis by simp
        qed
      qed
    qed
  qed
qed

lemma touched_live:
  assumes "only_tmp_touched (tmpFile ctx) (next_fd fs) fs fs'"
    and "aofFile handler < next_fd fs" and "aofFile handler \<noteq> tmpFile ctx"
    and "dir fs (aofFilename handler) \<noteq> Some (of_ino (ofiles fs (tmpFile ctx)))"
    and "of_ino (ofiles fs (aofFile handler)) \<noteq> of_ino (ofiles fs (tmpFile ctx))"
  shows "live_aof_untouched handler ctx fs fs'"
  using assms
  by (auto simp: only_tmp_touched_def live_aof_untouched_def file_content_def split: option.split)

text \<open>
  Let the temporary file's handle and the handler's open file be two handles open before
  the call, on two files, the temporary file not being the file under \<open>aofFilename\<close>.
  Whatever I/O calls fail, \<open>DoRewrite\<close> leaves the live AOF untouched. And when
  \<open>FinishRewrite\<close> returns early, the handler is as it was and the live AOF is
  untouched: the bytes under \<open>aofFilename\<close> and the handler's open file are unchanged.
  The temporary file is not renamed into place: it stays under its own name, and its
  handle is not closed.
\<close>

lemma abort_keeps_live_aof:
  assumes "tmpFile ctx < next_fd fs" and "aofFile handler < next_fd fs"
    and "aofFile handler \<noteq> tmpFile ctx"
    and "dir fs (aofFilename handler) \<noteq> Some (of_ino (ofiles fs (tmpFile ctx)))"
    and "of_ino (ofiles fs (aofFile handler)) \<noteq> of_ino (ofiles fs (tmpFile ctx))"
  shows "live_aof_untouched handler ctx fs (snd (DoRewrite E handler ctx fs)) \<and>
         (\<forall>msg. fst (FinishRewrite E handler ctx fs) = Aborted msg \<longrightarrow>
            fst (snd (FinishRewrite E handler ctx fs)) = handler \<and>
            live_aof_untouched handler ctx fs (snd (snd (FinishRewrite E handler ctx fs))))"
proof (intro conjI allI impI)
  show "live_aof_untouched handler ctx fs (snd (DoRewrite E handler ctx fs))"
    using touched_live [OF touched_DoRewrite assms(2-5)] .
next
  fix msg
  assume ab: "fst (FinishRewrite E handler ctx fs) = Aborted msg"
  from touched_FinishRewrite [OF assms(1) ab]
  show "fst (snd (FinishRewrite E handler ctx fs)) = handler" by simp
next
  fix msg
  assume ab: "fst (FinishRewrite E handler ctx fs) = Aborted msg"
  from touched_FinishRewrite [OF assms(1) ab]
  have "only_tmp_touched (tmpFile ctx) (next_fd fs) fs (snd (snd (FinishRewrite E handler ctx fs)))"
    by simp
  from touched_live [OF this assms(2-5)]
  show "live_aof_untouched handler ctx fs (snd (snd (FinishRewrite E handler ctx fs)))" .
qed

subsection \<open>The errors the rewrite checks\<close>

text \<open>
  Each I/O call takes the next outcome of the script, and a call whose outcome is a
  failure returns an error.
\<close>

lemma next_outcome_cons: "faults fs = out # xs \<Longrightarrow> next_outcome fs = (out, fs\<lparr> faults := xs \<rparr>)"
  by (simp add: next_outcome_def)

lemma os_Open_script:
  assumes "faults fs = out # xs"
  shows "faults (snd (os_Open name fs)) = xs \<and>
         (out \<noteq> Succeed \<longrightarrow> (\<exists>e. fst (os_Open name fs) = Inl e))"
  using assms
  by (auto simp: os_Open_def next_outcome_cons new_handle_def Let_def
      split: io_outcome.split option.split)

lemma file_Seek_script:
  assumes "faults fs = out # xs"
  shows "faults (snd (file_Seek fd off fs)) = xs \<and>
         (out \<noteq> Succeed \<longrightarrow> (\<exists>e. fst (file_Seek fd off fs) = Inl e))"
  using assms
  by (auto simp: file_Seek_def next_outcome_cons Let_def split: io_outcome.split)

lemma file_Write_script:
  assumes "faults fs = out # xs"
  shows "faults (snd (file_Write fd data fs)) = xs \<and>
         (out \<noteq> Succeed \<longrightarrow> (\<exists>e. fst (file_Write fd data fs) = Inl e))"
  using assms
  by (auto simp: file_Write_def next_outcome_cons put_bytes_def Let_def split: io_outcome.split)

lemma io_Copy_script:
  assumes "faults fs = out # xs"
  shows "faults (snd (io_Copy dst src fs)) = xs \<and>
         (out \<noteq> Succeed \<longrightarrow> (\<exists>e. fst (io_Copy dst src fs) = Inl e))"
  using assms
  by (auto simp: io_Copy_def next_outcome_cons put_bytes_def Let_def split: io_outcome.split)

lemma script_step:
  assumes "xs = replicate k Succeed @ Fail n # rest" and "xs = out # ys"
  shows "(k = 0 \<and> out = Fail n \<and> ys = rest) \<or>
         (0 < k \<and> out = Succeed \<and> ys = replicate (k - 1) Succeed @ Fail n # rest)"
  using assms by (cases k) auto

text \<open>
  When the write of the SELECT frame for database \<open>i\<close> fails, the loop of
  \<open>DoRewrite\<close> returns the error at once, in the state that write left.
\<close>

lemma rewrite_dbs_select_error:
  assumes "i < Databases E" and "faults fs = Fail n # rest"
  shows "\<exists>err. rewrite_dbs E sdb tmp i fs =
                 (Some err, snd (file_Write tmp (select_frame E i) fs))"
proof -
  obtain r fs1 where w: "file_Write tmp (select_frame E i) fs = (r, fs1)" by force
  obtain e where "r = Inl e"
    using file_Write_script [OF assms(2), of tmp "select_frame E i"] w by auto
  with w assms(1) show ?thesis by (subst rewrite_dbs.simps) simp
qed

text \<open>
  \<open>FinishRewrite\<close> makes four I/O calls before the rename: the open of the live AOF,
  the seek, the write of the SELECT frame and the copy. When one of them is the first
  call to fail, \<open>FinishRewrite\<close> returns early.
\<close>

lemma FinishRewrite_checked_error_aborts:
  assumes sc: "faults fs = replicate k Succeed @ Fail n # rest" and k: "k < 4"
  shows "\<exists>msg. fst (FinishRewrite E handler ctx fs) = Aborted msg"
proof -
  obtain out0 xs0 where f0: "faults fs = out0 # xs0" using sc by (cases k) auto
  obtain r1 fs1 where e1: "os_Open (aofFilename handler) fs = (r1, fs1)" by force
  show ?thesis
  proof (cases r1)
    case (Inl err)
    with e1 show ?thesis by (simp add: FinishRewrite_def)
  next
    case src: (Inr src)
    have s1: "0 < k" "faults fs1 = replicate (k - 1) Succeed @ Fail n # rest"
      using script_step [OF sc f0] os_Open_script [OF f0, of "aofFilename handler"] e1 src
      by auto
    obtain out1 xs1 where f1: "faults fs1 = out1 # xs1" using s1(2) by (cases "k - 1") auto
    obtain r2 fs2 where e2: "file_Seek src (fileSize ctx) fs1 = (r2, fs2)" by force
    show ?thesis
    proof (cases r2)
      case (Inl err)
      with e1 src e2 show ?thesis by (simp add: FinishRewrite_def)
    next
      case off: (Inr off)
      have s2: "0 < k - 1" "faults fs2 = replicate (k - 2) Succeed @ Fail n # rest"
        using script_step [OF s1(2) f1] file_Seek_script [OF f1, of src "fileSize ctx"] e2 off
        by (auto simp: numeral_2_eq_2)
      obtain out2 xs2 where f2: "faults fs2 = out2 # xs2" using s2(2) by (cases "k - 2") auto
      obtain r3 fs3 where e3:
        "file_Write (tmpFile ctx) (select_frame E (dbIdx ctx)) fs2 = (r3, fs3)" by force
      show ?thesis
      proof (cases r3)
        case (Inl err)
        with e1 src e2 off e3 show ?thesis by (simp add: FinishRewrite_def)
      next
        case w: (Inr m)
        have s3: "0 < k - 2" "faults fs3 = replicate (k - 3) Succeed @ Fail n # rest"
          using script_step [OF s2(2) f2]
            file_Write_script [OF f2, of "tmpFile ctx" "select_frame E (dbIdx ctx)"] e3 w
          by (auto simp: numeral_3_eq_3 numeral_2_eq_2)
        have f3: "faults fs3 = Fail n # rest" using s3 k by simp
        obtain r4 fs4 where e4: "io_Copy (tmpFile ctx) src fs3 = (r4, fs4)" by force
        have "\<exists>e. r4 = Inl e" using io_Copy_script [OF f3, of "tmpFile ctx" src] e4 by simp
        then obtain err where "r4 = Inl err" ..
        with e1 src e2 off e3 w e4 show ?thesis by (simp add: FinishRewrite_def)
      qed
    qed
  qed
qed

text \<open>
  So every error the rewrite checks ends it with the live AOF untouched: a failed write
  of a SELECT frame in \<open>DoRewrite\<close> is returned, and \<open>Rewrite\<close> returns it without
  calling \<open>FinishRewrite\<close>; a failed open, seek, SELECT write or copy in
  \<open>FinishRewrite\<close> makes it return before the rename.
\<close>

lemma checked_error_keeps_live_aof:
  assumes "tmpFile ctx < next_fd fs" and "aofFile handler < next_fd fs"
    and "aofFile handler \<noteq> tmpFile ctx"
    and "dir fs (aofFilename handler) \<noteq> Some (of_ino (ofiles fs (tmpFile ctx)))"
    and "of_ino (ofiles fs (aofFile handler)) \<noteq> of_ino (ofiles fs (tmpFile ctx))"
  shows "0 < Databases E \<Longrightarrow> faults fs = Fail n # rest \<Longrightarrow>
           (\<exists>err. fst (DoRewrite E handler ctx fs) = Some err) \<and>
           live_aof_untouched handler ctx fs (snd (DoRewrite E handler ctx fs))"
    and "faults fs = replicate k Succeed @ Fail n # rest \<Longrightarrow> k < 4 \<Longrightarrow>
           (\<exists>msg. fst (FinishRewrite E handler ctx fs) = Aborted msg) \<and>
           fst (snd (FinishRewrite E handler ctx fs)) = handler \<and>
           live_aof_untouched handler ctx fs (snd (snd (FinishRewrite E handler ctx fs)))"
proof -
  note keeps = abort_keeps_live_aof [OF assms, of E]
  {
    assume "0 < Databases E" and "faults fs = Fail n # rest"
    from rewrite_dbs_select_error [OF this]
    have "\<exists>err. fst (DoRewrite E handler ctx fs) = Some err"
      by (metis DoRewrite_def fst_conv)
    with keeps
    show "(\<exists>err. fst (DoRewrite E handler ctx fs) = Some err) \<and>
          live_aof_untouched handler ctx fs (snd (DoRewrite E handler ctx fs))"
      by simp
  }
  {
    assume "faults fs = replicate k Succeed @ Fail n # rest" and "k < 4"
    from FinishRewrite_checked_error_aborts [OF this]
    obtain msg where m: "fst (FinishRewrite E handler ctx fs) = Aborted msg" by blast
    with keeps
    show "(\<exists>msg. fst (FinishRewrite E handler ctx fs) = Aborted msg) \<and>
          fst (snd (FinishRewrite E handler ctx fs)) = handler \<and>
          live_aof_untouched handler ctx fs (snd (snd (FinishRewrite E handler ctx fs)))"
      by blast
  }
qed

subsection \<open>The write errors DoRewrite drops\<close>

text \<open>
  Claim C3 says that every I/O error during \<open>DoRewrite\<close> or \<open>FinishRewrite\<close>, a
  failed write among them, aborts the rewrite with the live AOF unmodified, its bytes
  and the handler's open file unchanged. \<open>DoRewrite\<close> checks the result of the write of
  each SELECT frame and drops the result of the writes of the entities' commands and of
  their expiration commands. Take the live AOF holding \<open>OLD\<close>, the scratch database
  holding in database 0 the key \<open>k\<close> with a string and an expiration, and let the
  fifth I/O call of \<open>Rewrite\<close>, the write of \<open>SET k v\<close> to the temporary file, fail
  with nothing written. That write returns an error, \<open>DoRewrite\<close> returns nil all
  the same, and \<open>Rewrite\<close> goes through \<open>FinishRewrite\<close> to its end: the handler's
  open file is closed and replaced, and the live AOF holds a dump without \<open>SET k v\<close>,
  where a rewrite with no failure leaves the full dump. When instead the fourth call,
  the write of the first SELECT frame, fails, \<open>Rewrite\<close> returns the error and the live
  AOF still holds \<open>OLD\<close>.
\<close>

theorem Rewrite_goes_on_after_failed_entity_write:
  "file_content (demo_fs ''OLD'' [Succeed, Succeed, Succeed, Succeed, Fail 0]) ''appendonly.aof'' =
     Some ''OLD'' \<and>
   fst (file_Write (tmpFile demo_ctx) (multi_bulk [''SET'', ''k'', ''v''])
          (snd (file_Write (tmpFile demo_ctx) (select_frame demo_aof 0)
                  (demo_started \<lparr> faults := [Succeed, Fail 0] \<rparr>)))) =
     Inl ''write: input/output error'' \<and>
   fst (DoRewrite demo_aof demo_handler demo_ctx (demo_started \<lparr> faults := [Succeed, Fail 0] \<rparr>)) =
     None \<and>
   fst (Rewrite demo_aof demo_handler
          (demo_fs ''OLD'' [Succeed, Succeed, Succeed, Succeed, Fail 0])) = RewriteNil Finished \<and>
   file_content (snd (snd (Rewrite demo_aof demo_handler
          (demo_fs ''OLD'' [Succeed, Succeed, Succeed, Succeed, Fail 0])))) ''appendonly.aof'' =
     Some (multi_bulk [''SELECT'', ''0''] @ multi_bulk [''PEXPIREAT'', ''k'', ''100''] @
           multi_bulk [''PEXPIREAT'', ''o'', ''200''] @ multi_bulk [''SELECT'', ''1''] @
           multi_bulk [''SELECT'', ''1''] @ multi_bulk [''SELECT'', ''1'']) \<and>
   aofFile (fst (snd (Rewrite demo_aof demo_handler
          (demo_fs ''OLD'' [Succeed, Succeed, Succeed, Succeed, Fail 0])))) = 3 \<and>
   aofFile demo_handler = 0 \<and>
   of_closed (ofiles (snd (snd (Rewrite demo_aof demo_handler
          (demo_fs ''OLD'' [Succeed, Succeed, Succeed, Succeed, Fail 0])))) (aofFile demo_handler)) \<and>
   file_content (snd (snd (Rewrite demo_aof demo_handler (demo_fs ''OLD'' []))))
     ''appendonly.aof'' =
     Some (multi_bulk [''SELECT'', ''0''] @ multi_bulk [''SET'', ''k'', ''v''] @
           multi_bulk [''PEXPIREAT'', ''k'', ''100''] @
           multi_bulk [''PEXPIREAT'', ''o'', ''200''] @ multi_bulk [''SELECT'', ''1''] @
           multi_bulk [''SELECT'', ''1''] @ multi_bulk [''SELECT'', ''1'']) \<and>
   fst (Rewrite demo_aof demo_handler (demo_fs ''OLD'' [Succeed, Succeed, Succeed, Fail 0])) =
     RewriteError ''write: input/output error'' \<and>
   file_content (snd (snd (Rewrite demo_aof demo_handler
          (demo_fs ''OLD'' [Succeed, Succeed, Succeed, Fail 0])))) ''appendonly.aof'' = Some ''OLD''"
  by code_simp

subsection \<open>A rewrite that goes through\<close>

lemma outcome_ok: "faults fs = [] \<Longrightarrow> next_outcome fs = (Succeed, fs)"
  by (simp add: next_outcome_def)

lemma os_Open_ok:
  assumes "faults fs = []" and "dir fs name = Some i"
  shows "os_Open name fs =
           (Inr (next_fd fs),
            fs\<lparr> ofiles := (ofiles fs)(next_fd fs :=
                   \<lparr> of_name = name, of_ino = i, of_pos = 0, of_append = False, of_closed = False \<rparr>),
                next_fd := Suc (next_fd fs) \<rparr>)"
  using assms by (simp add: os_Open_def outcome_ok new_handle_def)

lemma os_OpenFile_ok:
  assumes "faults fs = []" and "dir fs name = Some i"
  shows "os_OpenFile name fs =
           (Inr (next_fd fs),
            fs\<lparr> ofiles := (ofiles fs)(next_fd fs :=
                   \<lparr> of_name = name, of_ino = i, of_pos = 0, of_append = True, of_closed = False \<rparr>),
                next_fd := Suc (next_fd fs) \<rparr>)"
  using assms by (simp add: os_OpenFile_def outcome_ok new_handle_def)

lemma file_Seek_ok:
  assumes "faults fs = []" and "\<not> of_closed (ofiles fs fd)" and "0 \<le> off"
  shows "file_Seek fd off fs =
           (Inr off, fs\<lparr> ofiles := (ofiles fs)(fd := (ofiles fs fd)\<lparr> of_pos := nat off \<rparr>) \<rparr>)"
  using assms by (simp add: file_Seek_def outcome_ok)

lemma file_Close_ok:
  assumes "faults fs = []"
  shows "snd (file_Close fd fs) =
           fs\<lparr> ofiles := (ofiles fs)(fd := (ofiles fs fd)\<lparr> of_closed := True \<rparr>) \<rparr>"
  using assms by (simp add: file_Close_def outcome_ok Let_def)

lemma file_Close_frame:
  assumes "faults fs = []"
  shows "faults (snd (file_Close fd fs)) = []" and "dir (snd (file_Close fd fs)) = dir fs"
    and "next_fd (snd (file_Close fd fs)) = next_fd fs"
    and "inodes (snd (file_Close fd fs)) = inodes fs"
    and "of_name (ofiles (snd (file_Close fd fs)) g) = of_name (ofiles fs g)"
  using assms by (simp_all add: file_Close_ok)

lemma os_Rename_ok:
  assumes "faults fs = []" and "dir fs old = Some i" and "old \<noteq> new"
  shows "snd (os_Rename old new fs) = fs\<lparr> dir := ((dir fs)(new \<mapsto> i))(old := None) \<rparr>"
  using assms by (simp add: os_Rename_def outcome_ok)

lemma io_Copy_ok:
  assumes "faults fs = []" and "\<not> of_closed (ofiles fs src)" and "\<not> of_closed (ofiles fs dst)"
  shows "io_Copy dst src fs =
           (Inr (length (drop (of_pos (ofiles fs src)) (inodes fs (of_ino (ofiles fs src))))),
            put_bytes dst (drop (of_pos (ofiles fs src)) (inodes fs (of_ino (ofiles fs src))))
              (fs\<lparr> ofiles := (ofiles fs)(src := (ofiles fs src)
                     \<lparr> of_pos := of_pos (ofiles fs src) +
                         length (drop (of_pos (ofiles fs src)) (inodes fs (of_ino (ofiles fs src)))) \<rparr>) \<rparr>))"
  using assms by (simp add: io_Copy_def outcome_ok through_def Let_def)

lemma grown_frame:
  assumes "grown fd data fs fs'"
  shows "faults fs' = faults fs" and "dir fs' = dir fs" and "next_fd fs' = next_fd fs"
    and "inodes fs' (of_ino (ofiles fs fd)) = inodes fs (of_ino (ofiles fs fd)) @ data"
    and "\<And>i. i \<noteq> of_ino (ofiles fs fd) \<Longrightarrow> inodes fs' i = inodes fs i"
    and "\<And>g. g \<noteq> fd \<Longrightarrow> ofiles fs' g = ofiles fs g"
    and "of_ino (ofiles fs' fd) = of_ino (ofiles fs fd)"
    and "of_name (ofiles fs' fd) = of_name (ofiles fs fd)"
    and "at_end fs' fd"
proof -
  from assms have o: "ofiles fs' = (ofiles fs)(fd := ofiles fs' fd)" by (simp add: grown_def)
  show "\<And>g. g \<noteq> fd \<Longrightarrow> ofiles fs' g = ofiles fs g"
  proof -
    fix g assume "g \<noteq> fd"
    then show "ofiles fs' g = ofiles fs g" by (subst o) simp
  qed
qed (use assms in \<open>simp_all add: grown_def\<close>)

lemma FinishRewrite_run:
  assumes nofault: "faults fs = []"
    and live: "dir fs (aofFilename handler) = Some li"
    and tmp_end: "at_end fs (tmpFile ctx)"
    and tmp_name: "dir fs (of_name (ofiles fs (tmpFile ctx))) = Some (of_ino (ofiles fs (tmpFile ctx)))"
    and other: "of_ino (ofiles fs (tmpFile ctx)) \<noteq> li"
    and fresh: "tmpFile ctx < next_fd fs"
    and size: "0 \<le> fileSize ctx"
  shows "\<exists>fs'. FinishRewrite E handler ctx fs =
                 (Finished, handler\<lparr> aofFile := Suc (next_fd fs) \<rparr>, fs') \<and>
               dir fs' (aofFilename handler) = Some (of_ino (ofiles fs (tmpFile ctx))) \<and>
               dir fs' (of_name (ofiles fs (tmpFile ctx))) = None \<and>
               inodes fs' (of_ino (ofiles fs (tmpFile ctx))) =
                 inodes fs (of_ino (ofiles fs (tmpFile ctx))) @ select_frame E (dbIdx ctx) @
                 drop (nat (fileSize ctx)) (inodes fs li) @ select_frame E (currentDB handler) \<and>
               of_ino (ofiles fs' (Suc (next_fd fs))) = of_ino (ofiles fs (tmpFile ctx)) \<and>
               at_end fs' (Suc (next_fd fs)) \<and> of_append (ofiles fs' (Suc (next_fd fs)))"
proof -
  let ?tmp = "tmpFile ctx" and ?src = "next_fd fs" and ?new = "Suc (next_fd fs)"
  let ?live = "aofFilename handler"
  let ?ti = "of_ino (ofiles fs ?tmp)" and ?tn = "of_name (ofiles fs ?tmp)"
  let ?sel1 = "select_frame E (dbIdx ctx)" and ?sel2 = "select_frame E (currentDB handler)"
  let ?tail = "drop (nat (fileSize ctx)) (inodes fs li)"
  have ne_name: "?tn \<noteq> ?live" using live tmp_name other by auto
  have ne_fd: "?tmp \<noteq> ?src" "?tmp \<noteq> ?new" using fresh by simp_all
  \<comment> \<open>the live AOF is opened and the handle moved to \<open>fileSize\<close>\<close>
  define fs1 where "fs1 = fs\<lparr> ofiles := (ofiles fs)(?src :=
      \<lparr> of_name = ?live, of_ino = li, of_pos = 0, of_append = False, of_closed = False \<rparr>),
      next_fd := Suc ?src \<rparr>"
  have e1: "os_Open ?live fs = (Inr ?src, fs1)"
    unfolding fs1_def by (rule os_Open_ok [OF nofault live])
  define fs2 where "fs2 = fs1\<lparr> ofiles := (ofiles fs1)(?src := (ofiles fs1 ?src)\<lparr> of_pos := nat (fileSize ctx) \<rparr>) \<rparr>"
  have e2: "file_Seek ?src (fileSize ctx) fs1 = (Inr (fileSize ctx), fs2)"
    unfolding fs2_def by (rule file_Seek_ok) (simp_all add: fs1_def nofault size)
  have p2: "faults fs2 = []" "dir fs2 = dir fs" "inodes fs2 = inodes fs" "next_fd fs2 = ?new"
    "ofiles fs2 ?tmp = ofiles fs ?tmp"
    "ofiles fs2 ?src = \<lparr> of_name = ?live, of_ino = li, of_pos = nat (fileSize ctx),
                          of_append = False, of_closed = False \<rparr>"
    using ne_fd by (simp_all add: fs2_def fs1_def nofault)
  have end2: "at_end fs2 ?tmp" using tmp_end p2 by (simp add: at_end_def)
  \<comment> \<open>the SELECT frame goes to the temporary file\<close>
  define fs3 where "fs3 = snd (file_Write ?tmp ?sel1 fs2)"
  have w3: "fst (file_Write ?tmp ?sel1 fs2) = Inr (length ?sel1)" "grown ?tmp ?sel1 fs2 fs3"
    using file_Write_grown [OF p2(1) end2] by (simp_all add: fs3_def)
  have e3: "file_Write ?tmp ?sel1 fs2 = (Inr (length ?sel1), fs3)"
    using w3(1) by (simp add: fs3_def prod_eq_iff)
  note g3 = grown_frame [OF w3(2)]
  have p3: "faults fs3 = []" "dir fs3 = dir fs" "next_fd fs3 = ?new"
    "inodes fs3 ?ti = inodes fs ?ti @ ?sel1" "inodes fs3 li = inodes fs li"
    "ofiles fs3 ?src = ofiles fs2 ?src" "of_ino (ofiles fs3 ?tmp) = ?ti"
    "of_name (ofiles fs3 ?tmp) = ?tn" "at_end fs3 ?tmp"
    using g3 p2 other ne_fd by (simp_all del: fun_upd_apply)
  \<comment> \<open>the tail of the live AOF is copied\<close>
  define fs3' where "fs3' = fs3\<lparr> ofiles := (ofiles fs3)(?src := (ofiles fs3 ?src)
      \<lparr> of_pos := of_pos (ofiles fs3 ?src) + length ?tail \<rparr>) \<rparr>"
  define fs4 where "fs4 = put_bytes ?tmp ?tail fs3'"
  have cl3: "\<not> of_closed (ofiles fs3 ?src)" "\<not> of_closed (ofiles fs3 ?tmp)"
    using p3(6) p2(6) p3(9) by (simp_all add: at_end_def)
  have tail3: "drop (of_pos (ofiles fs3 ?src)) (inodes fs3 (of_ino (ofiles fs3 ?src))) = ?tail"
    using p3(5,6) p2(6) by simp
  have e4: "io_Copy ?tmp ?src fs3 = (Inr (length ?tail), fs4)"
    using io_Copy_ok [OF p3(1) cl3] unfolding tail3 by (simp add: fs4_def fs3'_def)
  have p3': "faults fs3' = []" "dir fs3' = dir fs" "next_fd fs3' = ?new"
    "inodes fs3' = inodes fs3" "ofiles fs3' ?tmp = ofiles fs3 ?tmp"
    using p3 ne_fd by (simp_all add: fs3'_def)
  have end3': "at_end fs3' ?tmp" using p3(9) p3' by (simp add: at_end_def)
  have g4': "grown ?tmp ?tail fs3' fs4" unfolding fs4_def by (rule put_bytes_grown [OF end3'])
  note g4 = grown_frame [OF g4']
  have p4: "faults fs4 = []" "dir fs4 = dir fs" "next_fd fs4 = ?new"
    "inodes fs4 ?ti = inodes fs ?ti @ ?sel1 @ ?tail" "of_name (ofiles fs4 ?tmp) = ?tn"
    using g4 p3' p3 by (simp_all del: fun_upd_apply)
  \<comment> \<open>the old file is closed, the temporary file renamed and reopened\<close>
  define fs5 where "fs5 = snd (file_Close (aofFile handler) fs4)"
  have p5: "faults fs5 = []" "dir fs5 = dir fs" "next_fd fs5 = ?new" "inodes fs5 = inodes fs4"
    "of_name (ofiles fs5 ?tmp) = ?tn"
    using p4 file_Close_frame [OF p4(1), of "aofFile handler"] by (simp_all add: fs5_def)
  define fs6 where "fs6 = snd (os_Rename ?tn ?live fs5)"
  have r6: "fs6 = fs5\<lparr> dir := ((dir fs5)(?live \<mapsto> ?ti))(?tn := None) \<rparr>"
    unfolding fs6_def by (rule os_Rename_ok) (simp_all add: p5 tmp_name ne_name)
  have p6: "faults fs6 = []" "dir fs6 ?live = Some ?ti" "dir fs6 ?tn = None"
    "next_fd fs6 = ?new" "inodes fs6 = inodes fs4"
    using p5 ne_name by (simp_all add: r6)
  define fs7 where "fs7 = fs6\<lparr> ofiles := (ofiles fs6)(?new :=
      \<lparr> of_name = ?live, of_ino = ?ti, of_pos = 0, of_append = True, of_closed = False \<rparr>),
      next_fd := Suc ?new \<rparr>"
  have e7: "os_OpenFile ?live fs6 = (Inr ?new, fs7)"
    using os_OpenFile_ok [OF p6(1,2)] by (simp add: fs7_def p6)
  have p7: "faults fs7 = []" "dir fs7 = dir fs6" "inodes fs7 = inodes fs4"
    "of_ino (ofiles fs7 ?new) = ?ti" "at_end fs7 ?new" "of_append (ofiles fs7 ?new)"
    using p6 by (simp_all add: fs7_def at_end_def)
  \<comment> \<open>the final SELECT frame goes to the reopened file\<close>
  define fs8 where "fs8 = snd (file_Write ?new ?sel2 fs7)"
  have w8: "fst (file_Write ?new ?sel2 fs7) = Inr (length ?sel2)" "grown ?new ?sel2 fs7 fs8"
    using file_Write_grown [OF p7(1,5)] by (simp_all add: fs8_def)
  have e8: "file_Write ?new ?sel2 fs7 = (Inr (length ?sel2), fs8)"
    using w8(1) by (simp add: fs8_def prod_eq_iff)
  note g8 = grown_frame [OF w8(2)]
  have app8: "of_append (ofiles fs8 ?new)"
    using w8(2) p7(6) by (auto simp: grown_def file_Write_def fs8_def outcome_ok p7(1)
        put_bytes_def Let_def through_def at_end_def)
  have p8: "faults fs8 = []" "dir fs8 = dir fs6"
    "inodes fs8 ?ti = inodes fs ?ti @ ?sel1 @ ?tail @ ?sel2"
    "of_ino (ofiles fs8 ?new) = ?ti" "at_end fs8 ?new"
    using g8 p7 p4 by (simp_all del: fun_upd_apply)
  define fs9 where "fs9 = snd (file_Close ?src fs8)"
  have c9: "fs9 = fs8\<lparr> ofiles := (ofiles fs8)(?src := (ofiles fs8 ?src)\<lparr> of_closed := True \<rparr>) \<rparr>"
    unfolding fs9_def by (rule file_Close_ok [OF p8(1)])
  have p9: "dir fs9 = dir fs6" "inodes fs9 = inodes fs8" "ofiles fs9 ?new = ofiles fs8 ?new"
    using p8 by (simp_all add: c9)
  have end9: "at_end fs9 ?new" using p8(5) p9 by (simp add: at_end_def)
  have run: "FinishRewrite E handler ctx fs = (Finished, handler\<lparr> aofFile := ?new \<rparr>, fs9)"
    by (simp add: FinishRewrite_def e1 e2 e3 e4 Let_def p4(5) p5(5)
        fs5_def [symmetric] fs6_def [symmetric] e7 e8 fs9_def [symmetric])
  show ?thesis
    using run p9 p6(2,3) p8(3,4) end9 app8 by simp
qed

text \<open>
  Claim C2. Let no I/O call fail (the rename included), let the temporary file be a
  file of its own, still under the name its handle was opened with, its handle writing
  at the end, and let \<open>fileSize\<close> be non-negative. Then \<open>FinishRewrite\<close> runs to its
  end, and afterwards the file under \<open>aofFilename\<close> holds: the bytes the temporary file
  had, then the frame of \<open>SELECT dbIdx\<close>, then the bytes of the old live AOF from offset
  \<open>fileSize\<close> to its end, then the frame of \<open>SELECT currentDB\<close>. That last frame was
  written through the handler's new open file, an append-mode handle on the renamed
  file, which stands at its end; \<open>currentDB\<close> is as before, and the temporary name is
  gone.
\<close>

theorem FinishRewrite_splices:
  assumes "faults fs = []"
    and "dir fs (aofFilename handler) = Some li"
    and "at_end fs (tmpFile ctx)"
    and "dir fs (of_name (ofiles fs (tmpFile ctx))) = Some (of_ino (ofiles fs (tmpFile ctx)))"
    and "of_ino (ofiles fs (tmpFile ctx)) \<noteq> li"
    and "tmpFile ctx < next_fd fs"
    and "0 \<le> fileSize ctx"
  shows "fst (FinishRewrite E handler ctx fs) = Finished \<and>
         file_content (snd (snd (FinishRewrite E handler ctx fs))) (aofFilename handler) =
           Some (inodes fs (of_ino (ofiles fs (tmpFile ctx))) @ select_frame E (dbIdx ctx) @
                 drop (nat (fileSize ctx)) (inodes fs li) @ select_frame E (currentDB handler)) \<and>
         file_content (snd (snd (FinishRewrite E handler ctx fs)))
           (of_name (ofiles fs (tmpFile ctx))) = None \<and>
         currentDB (fst (snd (FinishRewrite E handler ctx fs))) = currentDB handler \<and>
         aofFilename (fst (snd (FinishRewrite E handler ctx fs))) = aofFilename handler \<and>
         at_end (snd (snd (FinishRewrite E handler ctx fs)))
           (aofFile (fst (snd (FinishRewrite E handler ctx fs)))) \<and>
         of_append (ofiles (snd (snd (FinishRewrite E handler ctx fs)))
           (aofFile (fst (snd (FinishRewrite E handler ctx fs))))) \<and>
         dir (snd (snd (FinishRewrite E handler ctx fs))) (aofFilename handler) =
           Some (of_ino (ofiles (snd (snd (FinishRewrite E handler ctx fs)))
                   (aofFile (fst (snd (FinishRewrite E handler ctx fs))))))"
proof -
  from FinishRewrite_run [OF assms, of E]
  obtain fs' where r: "FinishRewrite E handler ctx fs =
                 (Finished, handler\<lparr> aofFile := Suc (next_fd fs) \<rparr>, fs')"
    and f: "dir fs' (aofFilename handler) = Some (of_ino (ofiles fs (tmpFile ctx)))"
      "dir fs' (of_name (ofiles fs (tmpFile ctx))) = None"
      "inodes fs' (of_ino (ofiles fs (tmpFile ctx))) =
         inodes fs (of_ino (ofiles fs (tmpFile ctx))) @ select_frame E (dbIdx ctx) @
         drop (nat (fileSize ctx)) (inodes fs li) @ select_frame E (currentDB handler)"
      "of_ino (ofiles fs' (Suc (next_fd fs))) = of_ino (ofiles fs (tmpFile ctx))"
      "at_end fs' (Suc (next_fd fs))" "of_append (ofiles fs' (Suc (next_fd fs)))"
    by blast
  show ?thesis
    unfolding r using f by (simp add: file_content_def)
qed

theorem FinishRewrite_splices_witness:
  "faults (demo_rewritten []) = [] \<and>
   dir (demo_rewritten []) (aofFilename demo_handler) = Some 0 \<and>
   at_end (demo_rewritten []) (tmpFile demo_ctx) \<and>
   dir (demo_rewritten []) (of_name (ofiles (demo_rewritten []) (tmpFile demo_ctx))) =
     Some (of_ino (ofiles (demo_rewritten []) (tmpFile demo_ctx))) \<and>
   of_ino (ofiles (demo_rewritten []) (tmpFile demo_ctx)) \<noteq> 0 \<and>
   tmpFile demo_ctx < next_fd (demo_rewritten []) \<and>
   0 \<le> fileSize demo_ctx \<and>
   file_content (demo_rewritten []) ''appendonly.aof'' = Some ''OLDNEW'' \<and>
   fst (FinishRewrite demo_aof demo_handler demo_ctx (demo_rewritten [])) = Finished \<and>
   file_content (snd (snd (FinishRewrite demo_aof demo_handler demo_ctx (demo_rewritten []))))
     (aofFilename demo_handler) =
     Some (dump_frames demo_aof demo_scratch @ multi_bulk [''SELECT'', ''1''] @ ''NEW'' @
           multi_bulk [''SELECT'', ''1''])"
proof -
  let ?fs = "demo_rewritten []"
  have a1: "faults ?fs = []" by code_simp
  have a2: "dir ?fs (aofFilename demo_handler) = Some 0" by code_simp
  have a3: "at_end ?fs (tmpFile demo_ctx)" by code_simp
  have a4: "dir ?fs (of_name (ofiles ?fs (tmpFile demo_ctx))) =
              Some (of_ino (ofiles ?fs (tmpFile demo_ctx)))" by code_simp
  have a5: "of_ino (ofiles ?fs (tmpFile demo_ctx)) \<noteq> 0" by code_simp
  have a6: "tmpFile demo_ctx < next_fd ?fs" by code_simp
  have a7: "0 \<le> fileSize demo_ctx" by code_simp
  have c0: "file_content ?fs ''appendonly.aof'' = Some ''OLDNEW''" by code_simp
  have c1: "inodes ?fs (of_ino (ofiles ?fs (tmpFile demo_ctx))) = dump_frames demo_aof demo_scratch"
    by code_simp
  have c2: "select_frame demo_aof (dbIdx demo_ctx) = multi_bulk [''SELECT'', ''1'']" by code_simp
  have c3: "drop (nat (fileSize demo_ctx)) (inodes ?fs 0) = ''NEW''" by code_simp
  have c4: "select_frame demo_aof (currentDB demo_handler) = multi_bulk [''SELECT'', ''1'']"
    by code_simp
  from FinishRewrite_splices [OF a1 a2 a3 a4 a5 a6 a7, of demo_aof]
  have "fst (FinishRewrite demo_aof demo_handler demo_ctx ?fs) = Finished \<and>
        file_content (snd (snd (FinishRewrite demo_aof demo_handler demo_ctx ?fs)))
          (aofFilename demo_handler) =
          Some (dump_frames demo_aof demo_scratch @ multi_bulk [''SELECT'', ''1''] @ ''NEW'' @
                multi_bulk [''SELECT'', ''1''])"
    unfolding c1 c2 c3 c4 by blast
  with a1 a2 a3 a4 a5 a6 a7 c0 show ?thesis by blast
qed

subsection \<open>The context StartRewrite makes\<close>

lemma free_name_free: "free_name d ns = Some (n, rest) \<Longrightarrow> d n = None"
  by (induction ns) (auto split: if_splits)

text \<open>
  When \<open>StartRewrite\<close> returns a context, its \<open>dbIdx\<close> is the handler's
  \<open>currentDB\<close>, its \<open>fileSize\<close> the length of the file under \<open>aofFilename\<close>, and
  its temporary file is a new, empty file under the name of its handle, the handle
  standing at its end.
\<close>

lemma StartRewrite_context:
  assumes "StartRewrite handler fs = (Inr (Inr ctx), fs')"
  shows "dbIdx ctx = currentDB handler \<and>
         file_content fs (aofFilename handler) = Some (take (nat (fileSize ctx))
           (the (file_content fs (aofFilename handler)))) \<and>
         int (length (the (file_content fs (aofFilename handler)))) = fileSize ctx \<and>
         tmpFile ctx = next_fd fs \<and> tmpFile ctx < next_fd fs' \<and>
         at_end fs' (tmpFile ctx) \<and>
         dir fs' (of_name (ofiles fs' (tmpFile ctx))) = Some (of_ino (ofiles fs' (tmpFile ctx))) \<and>
         inodes fs' (of_ino (ofiles fs' (tmpFile ctx))) = []"
proof -
  obtain e1 fs1 where s1: "file_Sync (aofFile handler) fs = (e1, fs1)" by force
  obtain r2 fs2 where s2: "os_Stat (aofFilename handler) fs1 = (r2, fs2)" by force
  obtain r3 fs3 where s3: "ioutil_TempFile fs2 = (r3, fs3)" by force
  from assms s1 s2 s3 obtain size where
    ok: "e1 = None" "r2 = Inr size" "r3 = Inr (tmpFile ctx)" "fs' = fs3"
      "fileSize ctx = size" "dbIdx ctx = currentDB handler"
    by (auto simp: StartRewrite_def split: option.splits sum.splits)
  have f1: "dir fs1 = dir fs" "inodes fs1 = inodes fs" "next_fd fs1 = next_fd fs"
    using s1 next_outcome_frame [of fs]
    by (auto simp: file_Sync_def Let_def split: prod.splits if_splits io_outcome.splits)
  have f2: "dir fs2 = dir fs" "inodes fs2 = inodes fs" "next_fd fs2 = next_fd fs"
    "file_content fs (aofFilename handler) \<noteq> None"
    "int (length (the (file_content fs (aofFilename handler)))) = size"
    using s2 ok(2) f1 next_outcome_frame [of fs1]
    by (auto simp: os_Stat_def Let_def file_content_def
        split: prod.splits io_outcome.splits option.splits)
  have f3: "tmpFile ctx = next_fd fs" "tmpFile ctx < next_fd fs3" "at_end fs3 (tmpFile ctx)"
    "dir fs3 (of_name (ofiles fs3 (tmpFile ctx))) = Some (of_ino (ofiles fs3 (tmpFile ctx)))"
    "inodes fs3 (of_ino (ofiles fs3 (tmpFile ctx))) = []"
    using s3 ok(3) f2(3) next_outcome_frame [of fs2]
    by (auto simp: ioutil_TempFile_def Let_def new_handle_def at_end_def
        split: prod.splits io_outcome.splits option.splits)
  show ?thesis
    using ok f2 f3 by auto
qed

lemma demo_ctx_started:
  "fst (StartRewrite demo_handler (demo_fs ''OLD'' [])) = Inr (Inr demo_ctx)"
  by code_simp

end
